theory Spec2Isabelle
  imports Complex_Main "HOL-Library.Word"
begin

section \<open>Task requests and their progress callbacks\<close>

text \<open>
  The C++ \<^verbatim>\<open>int\<close> of the source (stamps and revision counters) is a word of 32 bits:
  \<open>+\<close> and \<open>-\<close> wrap around, as the two's complement arithmetic of the compiled
  code does, and \<open>sint\<close> reads the signed value, between \<open>- 2^31\<close> and \<open>2^31 - 1\<close>.
\<close>

type_synonym c_int = "32 word"

text \<open>
  Modelled from the spec: the lifecycle states of a \<^verbatim>\<open>TaskRequest\<close>. The class is
  declared in a header outside the sources at hand; the code names
  \<^verbatim>\<open>STATE_IDLE\<close> and \<^verbatim>\<open>STATE_IN_PROGRESS\<close> and tests \<^verbatim>\<open>isIdle()\<close>,
  \<^verbatim>\<open>isCompleted()\<close> and \<^verbatim>\<open>isCanceled()\<close>; the spec lists the four states
  Idle, InProgress, Completed and Canceled.
\<close>

datatype State = STATE_IDLE | STATE_IN_PROGRESS | STATE_CANCELED | STATE_COMPLETED

text \<open>
  \<^verbatim>\<open>TileRequestProgressCallback\<close>: the inherited flag \<^verbatim>\<open>_canceled\<close>. The two raw
  pointers \<^verbatim>\<open>_request\<close> and \<^verbatim>\<open>_service\<close> are only read through
  (\<^verbatim>\<open>getStamp()\<close>); the stamps they lead to at the time of a poll are arguments of
  \<open>reportProgress\<close>.
\<close>

record ProgressCallback =
  canceled :: bool

text \<open>
  Modelled from the spec: a freshly constructed callback has not been cancelled (the
  constructor of the base class \<^verbatim>\<open>ProgressCallback\<close> is not among the sources).
\<close>

definition TileRequestProgressCallback :: ProgressCallback where
  "TileRequestProgressCallback = \<lparr>canceled = False\<rparr>"

text \<open>
  \<^verbatim>\<open>reportProgress(current, total)\<close>: both arguments are ignored by the source. The
  first argument here is \<^verbatim>\<open>_service->getStamp()\<close>, the second
  \<^verbatim>\<open>_request->getStamp()\<close>. The subtraction is the one of \<^verbatim>\<open>int\<close>: the
  difference of the two stamps wraps around when it does not fit into 32 bits. The
  result is the returned flag and the callback after the call.
\<close>

definition reportProgress :: "c_int \<Rightarrow> c_int \<Rightarrow> ProgressCallback \<Rightarrow> bool \<times> ProgressCallback" where
  "reportProgress serviceStamp requestStamp cb =
     (if canceled cb then (canceled cb, cb)
      else (let cb' = cb\<lparr>canceled := (sint (serviceStamp - requestStamp) > 2)\<rparr>
            in (canceled cb', cb')))"

text \<open>
  A worker polls the same callback repeatedly; each poll sees the stamps of that moment.
  \<open>polls\<close> gives the flags returned by the successive calls.
\<close>

fun polls :: "ProgressCallback \<Rightarrow> (c_int \<times> c_int) list \<Rightarrow> bool list" where
  "polls cb [] = []"
| "polls cb ((s, r) # ps) =
     (let (c, cb') = reportProgress s r cb in c # polls cb' ps)"

section \<open>Single and double precision numbers\<close>

text \<open>
  A finite floating point number is a rational. \<open>round_to p\<close> rounds a rational to the
  nearest number with a significand of \<open>p\<close> bits, ties to even (the default rounding of
  IEEE 754); the exponent range is not bounded, which is exact for the magnitudes that
  occur here (levels of detail and layer indices).
\<close>

definition pow2 :: "int \<Rightarrow> rat" where
  "pow2 k = (if 0 \<le> k then 2 ^ nat k else 1 / 2 ^ nat (- k))"

function bitlen :: "int \<Rightarrow> int" where
  \<comment> \<open>the number of binary digits of a positive integer\<close>
  "bitlen a = (if a \<le> 0 then 0 else 1 + bitlen (a div 2))"
  by pat_completeness auto
termination
  by (relation "measure nat") auto

declare bitlen.simps [simp del]

definition ilog2 :: "rat \<Rightarrow> int" where
  \<comment> \<open>the exponent \<open>e\<close> with \<open>2^e \<le> x < 2^(e+1)\<close>, for positive \<open>x\<close>\<close>
  "ilog2 x =
     (let (a, b) = quotient_of x;
          e = bitlen a - bitlen b
      in if pow2 e \<le> x then e else e - 1)"

definition round_even :: "rat \<Rightarrow> int" where
  "round_even q =
     (let n = \<lfloor>q\<rfloor>; r = q - of_int n
      in if r < 1 / 2 then n
         else if 1 / 2 < r then n + 1
         else if even n then n else n + 1)"

definition round_to :: "nat \<Rightarrow> rat \<Rightarrow> rat" where
  "round_to p x =
     (if x = 0 then 0
      else (let u = pow2 (ilog2 \<bar>x\<bar> - int p + 1)
            in of_int (round_even (x / u)) * u))"

definition to_float :: "rat \<Rightarrow> rat" where
  "to_float = round_to 24"

definition to_double :: "rat \<Rightarrow> rat" where
  "to_double = round_to 53"

section \<open>Requests, task service, terrain and tile\<close>

text \<open>Objects that are only passed around are known by their identity.\<close>

datatype TileLayerFactory = TileLayerFactory nat

datatype Layer = Layer nat

text \<open>
  \<^verbatim>\<open>TileKey\<close> is declared outside the sources at hand; the code reads its level of
  detail (an unsigned integer).
\<close>

record TileKey =
  levelOfDetail :: nat
  tileX :: nat
  tileY :: nat

text \<open>
  The two subclasses of \<^verbatim>\<open>TileLayerRequest\<close>: \<^verbatim>\<open>TileElevationLayerRequest\<close>
  (\<^verbatim>\<open>isElevLayerRequest()\<close>) and \<^verbatim>\<open>TileColorLayerRequest\<close> with its
  \<^verbatim>\<open>_layerIndex\<close>. The index is a C++ \<^verbatim>\<open>int\<close>; the only constructor call is in
  the installation loop, which counts from 0 upwards, and the index is handed to
  \<^verbatim>\<open>setColorLayer(unsigned int, ...)\<close>, so it is a natural number here.
\<close>

datatype LayerRequestKind = TileElevationLayerRequest | TileColorLayerRequest nat

text \<open>
  A \<^verbatim>\<open>TaskRequest\<close> with the members of \<^verbatim>\<open>TileLayerRequest\<close>. The progress
  callback is a pointer, null until \<^verbatim>\<open>setProgressCallback\<close>; the result is an
  \<^verbatim>\<open>osg::ref_ptr\<close>, null when the factory produced nothing.
\<close>

record TaskRequest =
  req_key :: TileKey
  req_factory :: TileLayerFactory
  req_kind :: LayerRequestKind
  priority :: rat
  stamp :: c_int
  state :: State
  progress :: "ProgressCallback option"
  result :: "Layer option"

text \<open>
  Modelled from the spec: a new \<^verbatim>\<open>TaskRequest\<close> is Idle ("Idle is also the initial
  state before first submission") and has no result; its constructor is in the header
  that is not among the sources.
\<close>

definition TileLayerRequest :: "TileKey \<Rightarrow> TileLayerFactory \<Rightarrow> LayerRequestKind \<Rightarrow> TaskRequest" where
  "TileLayerRequest k f knd =
     \<lparr>req_key = k, req_factory = f, req_kind = knd, priority = 0, stamp = 0,
      state = STATE_IDLE, progress = None, result = None\<rparr>"

text \<open>
  Modelled from the spec: the accessors of \<^verbatim>\<open>TaskRequest\<close> that the code calls (they
  are declared in the same header): the three tests compare the state, the setters
  store their argument. The stamps, like the revisions below, are C++ \<^verbatim>\<open>int\<close>s that
  count update cycles and changes of the terrain.
\<close>

definition isIdle :: "TaskRequest \<Rightarrow> bool" where
  "isIdle r = (state r = STATE_IDLE)"

definition isCompleted :: "TaskRequest \<Rightarrow> bool" where
  "isCompleted r = (state r = STATE_COMPLETED)"

definition isCanceled :: "TaskRequest \<Rightarrow> bool" where
  "isCanceled r = (state r = STATE_CANCELED)"

definition isElevLayerRequest :: "TaskRequest \<Rightarrow> bool" where
  "isElevLayerRequest r = (req_kind r = TileElevationLayerRequest)"

definition setPriority :: "rat \<Rightarrow> TaskRequest \<Rightarrow> TaskRequest" where
  \<comment> \<open>the parameter is a \<^verbatim>\<open>float\<close>: the argument is converted to single precision\<close>
  "setPriority v r = r\<lparr>priority := to_float v\<rparr>"

definition setStamp :: "c_int \<Rightarrow> TaskRequest \<Rightarrow> TaskRequest" where
  "setStamp s r = r\<lparr>stamp := s\<rparr>"

definition setState :: "State \<Rightarrow> TaskRequest \<Rightarrow> TaskRequest" where
  "setState s r = r\<lparr>state := s\<rparr>"

definition setProgressCallback :: "ProgressCallback \<Rightarrow> TaskRequest \<Rightarrow> TaskRequest" where
  "setProgressCallback cb r = r\<lparr>progress := Some cb\<rparr>"

text \<open>
  Modelled from the spec: the task service ("exposes submit(request), a current stamp,
  and is constructed with a fixed worker-thread count"). \<open>serial\<close> tells one
  constructed service object from another: it is the number of services its terrain had
  constructed before.
\<close>

record TaskService =
  serial :: nat
  numThreads :: "32 word"
  serviceStamp :: c_int
  queue :: "TaskRequest list"

text \<open>
  Modelled from the spec: \<^verbatim>\<open>new TaskService(n)\<close> gives a service with \<open>n\<close>
  worker threads, nothing submitted yet and its cycle counter at the start; \<open>k\<close> is
  the number it gets as an object of its terrain.
\<close>

definition TaskService :: "nat \<Rightarrow> 32 word \<Rightarrow> TaskService" where
  "TaskService k n = \<lparr>serial = k, numThreads = n, serviceStamp = 0, queue = []\<rparr>"

text \<open>
  Modelled from the spec: \<^verbatim>\<open>add(request)\<close> submits the request; the queue keeps
  the requests in the order of their submission.
\<close>

definition add :: "TaskRequest \<Rightarrow> TaskService \<Rightarrow> TaskService" where
  "add r s = s\<lparr>queue := queue s @ [r]\<rparr>"

text \<open>
  \<^verbatim>\<open>VersionedTerrain\<close>. \<open>servicesConstructed\<close> counts the executions of
  \<^verbatim>\<open>new TaskService(...)\<close>; the source has no such member, it is kept to state how
  often the constructor runs. The tile registry and its mutex are left out.
\<close>

record VersionedTerrain =
  layerFactory :: "TileLayerFactory option"
  revision :: c_int
  numTaskServiceThreads :: "32 word"
  taskService :: "TaskService option"
  servicesConstructed :: nat

definition VersionedTerrain :: "TileLayerFactory option \<Rightarrow> int option \<Rightarrow> VersionedTerrain" where
  \<comment> \<open>the second argument is \<^verbatim>\<open>atoi\<close> of the environment variable, when it is set\<close>
  "VersionedTerrain factory env =
     \<lparr>layerFactory = factory, revision = 0,
      numTaskServiceThreads = (case env of None \<Rightarrow> 8 | Some n \<Rightarrow> word_of_int n),
      taskService = None, servicesConstructed = 0\<rparr>"

definition incrementRevision :: "VersionedTerrain \<Rightarrow> VersionedTerrain" where
  "incrementRevision tr = tr\<lparr>revision := revision tr + 1\<rparr>"

definition getRevision :: "VersionedTerrain \<Rightarrow> c_int" where
  "getRevision tr = revision tr"

definition setNumTaskServiceThreads :: "32 word \<Rightarrow> VersionedTerrain \<Rightarrow> VersionedTerrain" where
  "setNumTaskServiceThreads n tr = tr\<lparr>numTaskServiceThreads := n\<rparr>"

definition getTileLayerFactory :: "VersionedTerrain \<Rightarrow> TileLayerFactory option" where
  "getTileLayerFactory tr = layerFactory tr"

text \<open>
  \<^verbatim>\<open>getOrCreateTaskService\<close>, executed by one thread: the unlocked test, then the
  test under the lock, then the construction. The result is the service returned and
  the terrain after the call.
\<close>

definition getOrCreateTaskService :: "VersionedTerrain \<Rightarrow> TaskService \<times> VersionedTerrain" where
  "getOrCreateTaskService tr =
     (case taskService tr of
        Some s \<Rightarrow> (s, tr)
      | None \<Rightarrow>
          (case taskService tr of
             Some s \<Rightarrow> (s, tr)
           | None \<Rightarrow>
               (let s = TaskService (servicesConstructed tr) (numTaskServiceThreads tr)
                in (s, tr\<lparr>taskService := Some s,
                          servicesConstructed := servicesConstructed tr + 1\<rparr>))))"

text \<open>
  The state of the base class \<^verbatim>\<open>osgTerrain::TerrainTile\<close> that the code reads and
  writes: the owning terrain (\<^verbatim>\<open>getTerrain()\<close>, null for a tile that is not
  attached), the dirty flag, the elevation layer and the vector of color layers.
\<close>

record TerrainTile =
  terrain :: "VersionedTerrain option"
  dirty :: bool
  elevationLayer :: "Layer option"
  colorLayers :: "Layer option list"

record VersionedTile = TerrainTile +
  key :: TileKey
  useLayerRequests :: bool
  terrainRevision :: c_int
  tileRevision :: c_int
  geometryRevision :: c_int
  requestsInstalled :: bool
  elevationLayerDirty :: bool
  colorLayersDirty :: bool
  usePerLayerUpdates :: bool
  requestElevation :: bool
  requests :: "TaskRequest list"

text \<open>
  The constructor. \<^verbatim>\<open>_requestElevation\<close> is not in the initialiser list: its first
  value is whatever the memory holds, the second argument here.
\<close>

definition VersionedTile :: "TileKey \<Rightarrow> bool \<Rightarrow> VersionedTile" where
  "VersionedTile k hint =
     \<lparr>terrain = None, dirty = False, elevationLayer = None, colorLayers = [],
      key = k, useLayerRequests = False, terrainRevision = - 1, tileRevision = 0,
      geometryRevision = 0, requestsInstalled = False, elevationLayerDirty = False,
      colorLayersDirty = False, usePerLayerUpdates = False, requestElevation = hint,
      requests = []\<rparr>"

definition setUseLayerRequests :: "bool \<Rightarrow> VersionedTile \<Rightarrow> VersionedTile" where
  "setUseLayerRequests v t = t\<lparr>useLayerRequests := v\<rparr>"

definition setTerrainRevision :: "c_int \<Rightarrow> VersionedTile \<Rightarrow> VersionedTile" where
  "setTerrainRevision v t = t\<lparr>terrainRevision := v\<rparr>"

definition incrementTileRevision :: "VersionedTile \<Rightarrow> VersionedTile" where
  "incrementTileRevision t = t\<lparr>tileRevision := tileRevision t + 1\<rparr>"

definition setHasElevationHint :: "bool \<Rightarrow> VersionedTile \<Rightarrow> VersionedTile" where
  "setHasElevationHint hint t = t\<lparr>requestElevation := hint\<rparr>"

text \<open>
  \<^verbatim>\<open>isInSyncWithTerrain\<close> dereferences the terrain pointer: there is no answer
  (\<open>None\<close>) for a tile without a terrain.
\<close>

definition isInSyncWithTerrain :: "VersionedTile \<Rightarrow> bool option" where
  "isInSyncWithTerrain t =
     (case terrain t of
        None \<Rightarrow> None
      | Some tr \<Rightarrow> Some (terrainRevision t = getRevision tr))"

text \<open>The setters of the base class, as the OpenSceneGraph library defines them.\<close>

definition setDirty :: "bool \<Rightarrow> VersionedTile \<Rightarrow> VersionedTile" where
  "setDirty v t = t\<lparr>dirty := v\<rparr>"

definition setElevationLayer :: "Layer \<Rightarrow> VersionedTile \<Rightarrow> VersionedTile" where
  "setElevationLayer l t = t\<lparr>elevationLayer := Some l\<rparr>"

definition setColorLayer :: "nat \<Rightarrow> Layer \<Rightarrow> VersionedTile \<Rightarrow> VersionedTile" where
  \<comment> \<open>the vector grows (with null entries) when the index is beyond its end\<close>
  "setColorLayer i l t =
     (let cl = colorLayers t;
          cl' = (if length cl \<le> i then cl @ replicate (i + 1 - length cl) None else cl)
      in t\<lparr>colorLayers := cl'[i := Some l]\<rparr>)"

definition getNumColorLayers :: "VersionedTile \<Rightarrow> nat" where
  "getNumColorLayers t = length (colorLayers t)"

section \<open>Installing and servicing the requests of a tile\<close>

text \<open>
  The body of the first \<^verbatim>\<open>if\<close> of \<^verbatim>\<open>servicePendingRequests\<close>, for the terrain
  \<open>tr\<close> of the tile and its factory. Each request gets its priority, the stamp and a new
  callback bound to the task service, which \<^verbatim>\<open>getOrCreateTaskService\<close> may have to
  construct.
\<close>

definition installElevationRequest ::
  "c_int \<Rightarrow> TileLayerFactory \<Rightarrow> TileKey \<Rightarrow> VersionedTerrain \<times> TaskRequest list \<Rightarrow>
   VersionedTerrain \<times> TaskRequest list" where
  "installElevationRequest st factory k trs =
     (let r0 = TileLayerRequest k factory TileElevationLayerRequest;
          r1 = setPriority (to_float (of_nat (levelOfDetail k))) r0;
          r2 = setStamp st r1;
          (svc, tr') = getOrCreateTaskService (fst trs);
          r3 = setProgressCallback TileRequestProgressCallback r2
      in (tr', snd trs @ [r3]))"

definition installColorRequest ::
  "c_int \<Rightarrow> TileLayerFactory \<Rightarrow> TileKey \<Rightarrow> nat \<Rightarrow> VersionedTerrain \<times> TaskRequest list \<Rightarrow>
   VersionedTerrain \<times> TaskRequest list" where
  "installColorRequest st factory k layerIndex trs =
     (let r0 = TileLayerRequest k factory (TileColorLayerRequest layerIndex);
          r1 = setPriority
                 (to_double (to_float (of_nat (levelOfDetail k)) +
                             to_double (to_double (1 / 10) * to_float (of_nat layerIndex))))
                 r0;
          r2 = setStamp st r1;
          (svc, tr') = getOrCreateTaskService (fst trs);
          r3 = setProgressCallback TileRequestProgressCallback r2
      in (tr', snd trs @ [r3]))"

fun installColorRequests ::
  "c_int \<Rightarrow> TileLayerFactory \<Rightarrow> TileKey \<Rightarrow> nat list \<Rightarrow> VersionedTerrain \<times> TaskRequest list \<Rightarrow>
   VersionedTerrain \<times> TaskRequest list" where
  "installColorRequests st factory k [] trs = trs"
| "installColorRequests st factory k (layerIndex # rest) trs =
     installColorRequests st factory k rest (installColorRequest st factory k layerIndex trs)"

definition installRequests :: "c_int \<Rightarrow> VersionedTerrain \<Rightarrow> VersionedTile \<Rightarrow> VersionedTile" where
  "installRequests st tr t =
     (let t1 =
        (case getTileLayerFactory tr of
           None \<Rightarrow> t
         | Some factory \<Rightarrow>
             (let trs0 = (tr, requests t);
                  trs1 = (if elevationLayer t \<noteq> None \<and> requestElevation t
                          then installElevationRequest st factory (key t) trs0
                          else trs0);
                  trs2 = installColorRequests st factory (key t)
                           [0..<getNumColorLayers t] trs1
              in t\<lparr>terrain := Some (fst trs2), requests := snd trs2\<rparr>))
      in t1\<lparr>requestsInstalled := True\<rparr>)"

text \<open>
  The loop of the second \<^verbatim>\<open>if\<close>: the terrain pointer (tested in every round) and the
  requests still to visit; the result is the terrain and the requests after the loop.
\<close>

fun servicePendingLoop ::
  "c_int \<Rightarrow> VersionedTerrain option \<Rightarrow> TaskRequest list \<Rightarrow>
   VersionedTerrain option \<times> TaskRequest list" where
  "servicePendingLoop st vt [] = (vt, [])"
| "servicePendingLoop st vt (r # rs) =
     (case vt of
        None \<Rightarrow>
          (let (vt', rs') = servicePendingLoop st vt rs in (vt', r # rs'))
      | Some tr \<Rightarrow>
          if isIdle r then
            (let r' = setStamp st r;
                 (svc, tr1) = getOrCreateTaskService tr;
                 tr2 = tr1\<lparr>taskService := Some (add r' svc)\<rparr>;
                 (vt', rs') = servicePendingLoop st (Some tr2) rs
             in (vt', r' # rs'))
          else if \<not> isCompleted r then
            (let (vt', rs') = servicePendingLoop st vt rs in (vt', setStamp st r # rs'))
          else
            (let (vt', rs') = servicePendingLoop st vt rs in (vt', r # rs')))"

text \<open>
  \<^verbatim>\<open>servicePendingRequests(stamp)\<close>. The installation reads the factory through the
  terrain pointer without a test: on a tile without a terrain the call does not return
  (\<open>None\<close>).
\<close>

definition servicePendingRequests :: "c_int \<Rightarrow> VersionedTile \<Rightarrow> VersionedTile option" where
  "servicePendingRequests st t =
     (case (if \<not> requestsInstalled t then
              (case terrain t of
                 None \<Rightarrow> None
               | Some tr \<Rightarrow> Some (installRequests st tr t))
            else Some t) of
        None \<Rightarrow> None
      | Some t1 \<Rightarrow>
          Some (if requestsInstalled t1 then
                  (let (vt', rs') = servicePendingLoop st (terrain t1) (requests t1)
                   in t1\<lparr>terrain := vt', requests := rs'\<rparr>)
                else t1))"

section \<open>Harvesting the completed requests\<close>

text \<open>The body of the branch for a completed request, before the request is erased.\<close>

definition installResult :: "TaskRequest \<Rightarrow> VersionedTile \<Rightarrow> VersionedTile" where
  "installResult r t =
     (if isElevLayerRequest r then
        (case result r of
           Some hfLayer \<Rightarrow>
             (let t1 = setElevationLayer hfLayer t
              in if usePerLayerUpdates t1 then t1\<lparr>elevationLayerDirty := True\<rparr>
                 else setDirty True t1)
         | None \<Rightarrow> t)
      else
        (case result r of
           Some imgLayer \<Rightarrow>
             (let t1 = setColorLayer
                         (case req_kind r of TileColorLayerRequest i \<Rightarrow> i
                                           | TileElevationLayerRequest \<Rightarrow> 0)
                         imgLayer t
              in if usePerLayerUpdates t1 then t1\<lparr>colorLayersDirty := True\<rparr>
                 else setDirty True t1)
         | None \<Rightarrow> t))"

text \<open>
  The loop of \<^verbatim>\<open>serviceCompletedRequests\<close> over the list from the iterator on. A
  completed request is erased; a cancelled one is reset and given a new callback, and
  the iterator stays where it is, so the next round looks at the same request again;
  any other request is stepped over. The branch for a cancelled request reads the task
  service through the terrain pointer without a test (\<open>None\<close> on a tile without a
  terrain). The result is the tile and the requests kept.
\<close>

function harvestLoop ::
  "VersionedTile \<Rightarrow> TaskRequest list \<Rightarrow> (VersionedTile \<times> TaskRequest list) option" where
  "harvestLoop t [] = Some (t, [])"
| "harvestLoop t (r # rs) =
     (if isCompleted r then harvestLoop (installResult r t) rs
      else if isCanceled r then
        (case terrain t of
           None \<Rightarrow> None
         | Some tr \<Rightarrow>
             (let r1 = setState STATE_IDLE r;
                  (svc, tr') = getOrCreateTaskService tr;
                  r2 = setProgressCallback TileRequestProgressCallback r1
              in harvestLoop (t\<lparr>terrain := Some tr'\<rparr>) (r2 # rs)))
      else
        (case harvestLoop t rs of
           None \<Rightarrow> None
         | Some (t', rs') \<Rightarrow> Some (t', r # rs')))"
  by pat_completeness auto
termination
  by (relation "measure (\<lambda>(t, rs). 2 * length rs +
                           (if rs \<noteq> [] \<and> isCanceled (hd rs) then 1 else 0))")
     (auto simp: isCanceled_def isCompleted_def setState_def setProgressCallback_def)

definition serviceCompletedRequests :: "VersionedTile \<Rightarrow> VersionedTile option" where
  "serviceCompletedRequests t =
     (case harvestLoop t (requests t) of
        None \<Rightarrow> None
      | Some (t', rs') \<Rightarrow> Some (t'\<lparr>requests := rs'\<rparr>))"

section \<open>The traversal\<close>

datatype VisitorType =
  NODE_VISITOR | UPDATE_VISITOR | EVENT_VISITOR | COLLECT_OCCLUDER_VISITOR | CULL_VISITOR

text \<open>
  \<^verbatim>\<open>traverse(nv)\<close>. The traversal of the base class belongs to the scene graph
  library: it is the parameter \<open>osgTraverse\<close>, a function on the state of the base
  class. The terrain technique is installed by the scene set-up; its
  \<^verbatim>\<open>updateContent(elevation, color)\<close> is recorded with its two arguments. The result
  is the tile after the traversal and the calls of \<^verbatim>\<open>updateContent\<close> made.
\<close>

definition baseTraverse ::
  "(VisitorType \<Rightarrow> TerrainTile \<Rightarrow> TerrainTile) \<Rightarrow> VisitorType \<Rightarrow> VersionedTile \<Rightarrow> VersionedTile" where
  "baseTraverse osgTraverse nv t =
     (let b = osgTraverse nv (TerrainTile.truncate t)
      in t\<lparr>terrain := terrain b, dirty := dirty b,
           elevationLayer := elevationLayer b, colorLayers := colorLayers b\<rparr>)"

text \<open>The first block guarded by \<^verbatim>\<open>serviceRequests\<close>, before the base traversal.\<close>

definition traverseBefore ::
  "bool \<Rightarrow> VersionedTile \<Rightarrow> (VersionedTile \<times> (bool \<times> bool) list) option" where
  "traverseBefore serviceRequests t =
     (if serviceRequests then
        (case serviceCompletedRequests t of
           None \<Rightarrow> None
         | Some t1 \<Rightarrow>
             if dirty t1 then
               Some (t1\<lparr>elevationLayerDirty := True, colorLayersDirty := True\<rparr>, [])
             else if elevationLayerDirty t1 \<or> colorLayersDirty t1 then
               Some (t1, [(elevationLayerDirty t1, colorLayersDirty t1)])
             else Some (t1, []))
      else Some (t, []))"

text \<open>
  The second block guarded by \<^verbatim>\<open>serviceRequests\<close>, after the base traversal.
  \<^verbatim>\<open>_geometryRevision++\<close> is the increment of an \<^verbatim>\<open>int\<close>: from \<open>2^31 - 1\<close> it
  wraps around to \<open>- 2^31\<close>.
\<close>

definition traverseAfter :: "bool \<Rightarrow> VersionedTile \<Rightarrow> VersionedTile" where
  "traverseAfter serviceRequests t =
     (if serviceRequests then
        (let t1 = (if elevationLayerDirty t
                   then t\<lparr>geometryRevision := geometryRevision t + 1\<rparr>
                   else t)
         in t1\<lparr>elevationLayerDirty := False, colorLayersDirty := False\<rparr>)
      else t)"

definition traverse ::
  "(VisitorType \<Rightarrow> TerrainTile \<Rightarrow> TerrainTile) \<Rightarrow> VisitorType \<Rightarrow> VersionedTile \<Rightarrow>
   (VersionedTile \<times> (bool \<times> bool) list) option" where
  "traverse osgTraverse nv t =
     (let serviceRequests = (useLayerRequests t \<and> nv = UPDATE_VISITOR)
      in case traverseBefore serviceRequests t of
           None \<Rightarrow> None
         | Some (t2, calls) \<Rightarrow>
             Some (traverseAfter serviceRequests (baseTraverse osgTraverse nv t2), calls))"

section \<open>The life of a tile and of a terrain\<close>

text \<open>
  What can happen to a tile between its construction and its destruction: the calls of
  its own methods, and the writes of its surroundings. A worker thread of the task
  service changes the state, the result and the callback of one request; the scene
  attaches the tile to a terrain, and the terrain changes (its revision, its factory,
  its task service); the base class setters change the layers and the dirty flag.
\<close>

datatype Event =
    ServicePendingRequests c_int
  | ServiceCompletedRequests
  | Traverse VisitorType
  | SetUseLayerRequests bool
  | SetTerrainRevision c_int
  | IncrementTileRevision
  | SetHasElevationHint bool
  | SetTerrain "VersionedTerrain option"
  | SetLayers bool "Layer option" "Layer option list"
  | Worker nat State "Layer option" "ProgressCallback option"

definition workerUpdate ::
  "nat \<Rightarrow> State \<Rightarrow> Layer option \<Rightarrow> ProgressCallback option \<Rightarrow> VersionedTile \<Rightarrow> VersionedTile" where
  "workerUpdate i s res cb t =
     (if i < length (requests t)
      then t\<lparr>requests := (requests t)[i := (requests t ! i)\<lparr>state := s, progress := cb, result := res\<rparr>]\<rparr>
      else t)"

fun step ::
  "(VisitorType \<Rightarrow> TerrainTile \<Rightarrow> TerrainTile) \<Rightarrow> Event \<Rightarrow> VersionedTile \<Rightarrow> VersionedTile option" where
  "step osg (ServicePendingRequests st) t = servicePendingRequests st t"
| "step osg ServiceCompletedRequests t = serviceCompletedRequests t"
| "step osg (Traverse nv) t = map_option fst (traverse osg nv t)"
| "step osg (SetUseLayerRequests v) t = Some (setUseLayerRequests v t)"
| "step osg (SetTerrainRevision v) t = Some (setTerrainRevision v t)"
| "step osg IncrementTileRevision t = Some (incrementTileRevision t)"
| "step osg (SetHasElevationHint v) t = Some (setHasElevationHint v t)"
| "step osg (SetTerrain vt) t = Some (t\<lparr>terrain := vt\<rparr>)"
| "step osg (SetLayers d e cs) t = Some (t\<lparr>dirty := d, elevationLayer := e, colorLayers := cs\<rparr>)"
| "step osg (Worker i s res cb) t = Some (workerUpdate i s res cb t)"

fun run ::
  "(VisitorType \<Rightarrow> TerrainTile \<Rightarrow> TerrainTile) \<Rightarrow> Event list \<Rightarrow> VersionedTile \<Rightarrow> VersionedTile option" where
  "run osg [] t = Some t"
| "run osg (e # es) t = (case step osg e t of None \<Rightarrow> None | Some t' \<Rightarrow> run osg es t')"

text \<open>
  The same for a terrain: the calls that write it, and the activity of the task service
  once it exists (its stamp advances, its queue changes). \<open>runTerrain\<close> returns the
  services that the calls of \<^verbatim>\<open>getOrCreateTaskService\<close> returned, in order, and the
  terrain at the end.
\<close>

datatype TerrainOp =
    GetOrCreateTaskService
  | IncrementRevision
  | SetNumTaskServiceThreads "32 word"
  | ServiceActivity c_int "TaskRequest list"

fun runTerrain :: "TerrainOp list \<Rightarrow> VersionedTerrain \<Rightarrow> TaskService list \<times> VersionedTerrain" where
  "runTerrain [] tr = ([], tr)"
| "runTerrain (GetOrCreateTaskService # ops) tr =
     (let (s, tr1) = getOrCreateTaskService tr;
          (ss, tr2) = runTerrain ops tr1
      in (s # ss, tr2))"
| "runTerrain (IncrementRevision # ops) tr = runTerrain ops (incrementRevision tr)"
| "runTerrain (SetNumTaskServiceThreads n # ops) tr =
     runTerrain ops (setNumTaskServiceThreads n tr)"
| "runTerrain (ServiceActivity st q # ops) tr =
     runTerrain ops
       (tr\<lparr>taskService := map_option (\<lambda>s. s\<lparr>serviceStamp := st, queue := q\<rparr>) (taskService tr)\<rparr>)"

section \<open>A tile at level 3 with an elevation layer and two color layers\<close>

definition exampleKey :: TileKey where
  "exampleKey = \<lparr>levelOfDetail = 3, tileX = 5, tileY = 2\<rparr>"

definition exampleTerrain :: VersionedTerrain where
  "exampleTerrain = VersionedTerrain (Some (TileLayerFactory 0)) None"

definition exampleTile :: VersionedTile where
  "exampleTile =
     (VersionedTile exampleKey True)
       \<lparr>terrain := Some exampleTerrain, elevationLayer := Some (Layer 0),
        colorLayers := [Some (Layer 1), Some (Layer 2)], useLayerRequests := True\<rparr>"

definition exampleRequest :: "LayerRequestKind \<Rightarrow> State \<Rightarrow> Layer option \<Rightarrow> TaskRequest" where
  "exampleRequest knd s res =
     (TileLayerRequest exampleKey (TileLayerFactory 0) knd)
       \<lparr>stamp := 1, state := s, progress := Some TileRequestProgressCallback, result := res\<rparr>"

text \<open>
  The tile two cycles later: the elevation request has completed with a height field,
  the request for color layer 0 has completed with nothing, the request for color layer
  1 has been cancelled.
\<close>

definition harvestTile :: VersionedTile where
  "harvestTile =
     exampleTile
       \<lparr>requestsInstalled := True, usePerLayerUpdates := True,
        requests :=
          [exampleRequest TileElevationLayerRequest STATE_COMPLETED (Some (Layer 10)),
           exampleRequest (TileColorLayerRequest 0) STATE_COMPLETED None,
           exampleRequest (TileColorLayerRequest 1) STATE_CANCELED None]\<rparr>"

text \<open>
  The tile in the middle of its loading: the elevation request is idle, the request for
  color layer 0 is being executed, the request for color layer 1 has completed.
\<close>

definition serviceTile :: VersionedTile where
  "serviceTile =
     exampleTile
       \<lparr>requestsInstalled := True,
        requests :=
          [exampleRequest TileElevationLayerRequest STATE_IDLE None,
           exampleRequest (TileColorLayerRequest 0) STATE_IN_PROGRESS None,
           exampleRequest (TileColorLayerRequest 1) STATE_COMPLETED (Some (Layer 12))]\<rparr>"

text \<open>
  For examples, a base traversal that does what the comment in \<^verbatim>\<open>traverse\<close> expects
  of it: a dirty tile is regenerated, which clears its dirty flag.
\<close>

definition exampleTraverse :: "VisitorType \<Rightarrow> TerrainTile \<Rightarrow> TerrainTile" where
  "exampleTraverse nv b = b\<lparr>dirty := False\<rparr>"

text \<open>
  A tile that was loaded at revision 0 of its terrain, with the elevation layer cached
  and no request left, after the terrain has moved to revision 1.
\<close>

definition staleTile :: VersionedTile where
  "staleTile =
     exampleTile
       \<lparr>terrain := Some (incrementRevision exampleTerrain), terrainRevision := 0,
        requestsInstalled := True\<rparr>"

text \<open>The same tile on a terrain that has no factory.\<close>

definition nullFactoryTile :: VersionedTile where
  "nullFactoryTile = exampleTile\<lparr>terrain := Some (VersionedTerrain None None)\<rparr>"

text \<open>
  Two more tiles at harvest time: one whose only request has completed with nothing,
  and the tile \<open>harvestTile\<close> in the mode that rebuilds the whole tile.
\<close>

definition absentTile :: VersionedTile where
  "absentTile =
     exampleTile
       \<lparr>requestsInstalled := True, usePerLayerUpdates := True,
        requests := [exampleRequest (TileColorLayerRequest 0) STATE_COMPLETED None]\<rparr>"

definition wholeTile :: VersionedTile where
  "wholeTile = harvestTile\<lparr>usePerLayerUpdates := False\<rparr>"

section \<open>Notions used to state the properties\<close>

definition serviceQueue :: "VersionedTerrain \<Rightarrow> TaskRequest list" where
  \<comment> \<open>the requests submitted so far; none before the service exists\<close>
  "serviceQueue tr = (case taskService tr of None \<Rightarrow> [] | Some s \<Rightarrow> queue s)"

definition installedKinds :: "VersionedTile \<Rightarrow> LayerRequestKind list" where
  \<comment> \<open>the layers the installation makes a request for, when there is a factory\<close>
  "installedKinds t =
     (if elevationLayer t \<noteq> None \<and> requestElevation t then [TileElevationLayerRequest] else [])
     @ map TileColorLayerRequest [0..<getNumColorLayers t]"

definition serviceOne :: "c_int \<Rightarrow> TaskRequest \<Rightarrow> TaskRequest" where
  \<comment> \<open>what one round of the servicing loop does to the request it visits\<close>
  "serviceOne st r = (if isIdle r \<or> \<not> isCompleted r then setStamp st r else r)"

definition resetCanceled :: "TaskRequest \<Rightarrow> TaskRequest" where
  \<comment> \<open>what the harvest does to a request that it keeps\<close>
  "resetCanceled r =
     (if isCanceled r
      then setProgressCallback TileRequestProgressCallback (setState STATE_IDLE r)
      else r)"

definition tileInv :: "VersionedTile \<Rightarrow> bool" where
  \<comment> \<open>no layer has two requests, and there is no request before the installation\<close>
  "tileInv t =
     (distinct (map req_kind (requests t)) \<and> (\<not> requestsInstalled t \<longrightarrow> requests t = []))"

definition kindPriority :: "TaskRequest \<Rightarrow> LayerRequestKind \<times> rat" where
  "kindPriority r = (req_kind r, priority r)"

definition differenceFits :: "c_int \<Rightarrow> c_int \<Rightarrow> bool" where
  \<comment> \<open>the difference of the two numbers is an \<^verbatim>\<open>int\<close>: their subtraction does not overflow\<close>
  "differenceFits s r = (- (2 ^ 31) \<le> sint s - sint r \<and> sint s - sint r < 2 ^ 31)"

section \<open>Properties of the task service of a terrain\<close>

lemma getOrCreateTaskService_valid:
  "taskService (snd (getOrCreateTaskService tr)) = Some (fst (getOrCreateTaskService tr))"
  by (cases "taskService tr") (simp_all add: getOrCreateTaskService_def TaskService_def Let_def)

lemma getOrCreateTaskService_existing:
  "taskService tr = Some s \<Longrightarrow> getOrCreateTaskService tr = (s, tr)"
  by (simp add: getOrCreateTaskService_def)

lemma getOrCreateTaskService_new:
  "taskService tr = None \<Longrightarrow>
   getOrCreateTaskService tr =
     (\<lparr>serial = servicesConstructed tr, numThreads = numTaskServiceThreads tr,
       serviceStamp = 0, queue = []\<rparr>,
      tr\<lparr>taskService := Some \<lparr>serial = servicesConstructed tr,
                                numThreads = numTaskServiceThreads tr,
                                serviceStamp = 0, queue = []\<rparr>,
         servicesConstructed := servicesConstructed tr + 1\<rparr>)"
  by (simp add: getOrCreateTaskService_def TaskService_def Let_def)

lemma getOrCreateTaskService_queue:
  "serviceQueue (snd (getOrCreateTaskService tr)) = serviceQueue tr"
  by (cases "taskService tr") (simp_all add: getOrCreateTaskService_def TaskService_def Let_def serviceQueue_def)

lemma getOrCreateTaskService_fst_queue:
  "queue (fst (getOrCreateTaskService tr)) = serviceQueue tr"
  by (cases "taskService tr") (simp_all add: getOrCreateTaskService_def TaskService_def Let_def serviceQueue_def)

lemma getOrCreateTaskService_factory:
  "layerFactory (snd (getOrCreateTaskService tr)) = layerFactory tr"
  by (cases "taskService tr") (simp_all add: getOrCreateTaskService_def TaskService_def Let_def)

lemma getOrCreateTaskService_revision:
  "revision (snd (getOrCreateTaskService tr)) = revision tr"
  by (cases "taskService tr") (simp_all add: getOrCreateTaskService_def TaskService_def Let_def)

section \<open>Properties of the installation and of the servicing loop\<close>

lemma installColorRequest_kinds:
  "map req_kind (snd (installColorRequest st f k i trs)) =
   map req_kind (snd trs) @ [TileColorLayerRequest i]"
  by (simp add: installColorRequest_def Let_def split_def TileLayerRequest_def
      setPriority_def setStamp_def setProgressCallback_def)

lemma installColorRequests_kinds:
  "map req_kind (snd (installColorRequests st f k is trs)) =
   map req_kind (snd trs) @ map TileColorLayerRequest is"
  by (induction "is" arbitrary: trs) (simp_all add: installColorRequest_kinds)

lemma installElevationRequest_kinds:
  "map req_kind (snd (installElevationRequest st f k trs)) =
   map req_kind (snd trs) @ [TileElevationLayerRequest]"
  by (simp add: installElevationRequest_def Let_def split_def TileLayerRequest_def
      setPriority_def setStamp_def setProgressCallback_def)

lemma installedKinds_distinct: "distinct (installedKinds t)"
  by (auto simp: installedKinds_def distinct_map inj_on_def)

lemma installRequests_kinds:
  "map req_kind (requests (installRequests st tr t)) =
   map req_kind (requests t) @
   (case layerFactory tr of None \<Rightarrow> [] | Some f \<Rightarrow> installedKinds t)"
  by (cases "layerFactory tr")
     (simp_all add: installRequests_def getTileLayerFactory_def Let_def installedKinds_def
        installColorRequests_kinds installElevationRequest_kinds)

lemma installRequests_installed: "requestsInstalled (installRequests st tr t)"
  by (simp add: installRequests_def Let_def)

lemma installRequests_terrain: "terrain (installRequests st tr t) \<noteq> None"
  if "terrain t \<noteq> None"
  using that
  by (cases "layerFactory tr") (simp_all add: installRequests_def getTileLayerFactory_def Let_def)

lemma servicePendingLoop_None:
  "servicePendingLoop st None rs = (None, rs)"
  by (induction rs) simp_all

lemma servicePendingLoop_Some:
  "\<exists>tr'. servicePendingLoop st (Some tr) rs = (Some tr', map (serviceOne st) rs) \<and>
         serviceQueue tr' = serviceQueue tr @ map (setStamp st) (filter isIdle rs) \<and>
         layerFactory tr' = layerFactory tr \<and> revision tr' = revision tr"
proof (induction rs arbitrary: tr)
  case Nil
  then show ?case by simp
next
  case (Cons r rs)
  show ?case
  proof (cases "isIdle r")
    case True
    define tr2 where
      "tr2 = (snd (getOrCreateTaskService tr))
               \<lparr>taskService := Some (add (setStamp st r) (fst (getOrCreateTaskService tr)))\<rparr>"
    obtain tr' where tr':
      "servicePendingLoop st (Some tr2) rs = (Some tr', map (serviceOne st) rs)"
      "serviceQueue tr' = serviceQueue tr2 @ map (setStamp st) (filter isIdle rs)"
      "layerFactory tr' = layerFactory tr2" "revision tr' = revision tr2"
      using Cons.IH [of tr2] by blast
    have q2: "serviceQueue tr2 = serviceQueue tr @ [setStamp st r]"
      by (simp add: tr2_def serviceQueue_def add_def getOrCreateTaskService_fst_queue)
    have f2: "layerFactory tr2 = layerFactory tr" "revision tr2 = revision tr"
      by (simp_all add: tr2_def getOrCreateTaskService_factory getOrCreateTaskService_revision)
    have "servicePendingLoop st (Some tr) (r # rs) = (Some tr', map (serviceOne st) (r # rs))"
      using True tr'(1) by (simp add: split_def Let_def tr2_def serviceOne_def)
    moreover have "serviceQueue tr' =
        serviceQueue tr @ map (setStamp st) (filter isIdle (r # rs))"
      using True tr'(2) q2 by simp
    ultimately show ?thesis using tr'(3,4) f2 by simp
  next
    case False
    obtain tr' where tr':
      "servicePendingLoop st (Some tr) rs = (Some tr', map (serviceOne st) rs)"
      "serviceQueue tr' = serviceQueue tr @ map (setStamp st) (filter isIdle rs)"
      "layerFactory tr' = layerFactory tr" "revision tr' = revision tr"
      using Cons.IH [of tr] by blast
    have "servicePendingLoop st (Some tr) (r # rs) = (Some tr', map (serviceOne st) (r # rs))"
      using False tr'(1) by (simp add: serviceOne_def)
    then show ?thesis using False tr'(2,3,4) by simp
  qed
qed

lemma serviceOne_kind: "req_kind (serviceOne st r) = req_kind r"
  by (simp add: serviceOne_def setStamp_def)

lemma servicePendingLoop_kinds:
  "map req_kind (snd (servicePendingLoop st vt rs)) = map req_kind rs"
proof (cases vt)
  case None
  then show ?thesis by (simp add: servicePendingLoop_None)
next
  case (Some tr)
  obtain tr' where "servicePendingLoop st (Some tr) rs = (Some tr', map (serviceOne st) rs)"
    using servicePendingLoop_Some by blast
  then show ?thesis using Some by (simp add: comp_def serviceOne_kind)
qed

lemma servicePendingRequests_installed:
  assumes "requestsInstalled t"
  shows "servicePendingRequests st t =
         Some (t\<lparr>terrain := fst (servicePendingLoop st (terrain t) (requests t)),
                 requests := snd (servicePendingLoop st (terrain t) (requests t))\<rparr>)"
  using assms by (simp add: servicePendingRequests_def split_def Let_def)

lemma servicePendingRequests_first:
  assumes "\<not> requestsInstalled t" and "terrain t = Some tr"
  shows "servicePendingRequests st t =
         Some ((installRequests st tr t)
                 \<lparr>terrain := fst (servicePendingLoop st (terrain (installRequests st tr t))
                                   (requests (installRequests st tr t))),
                  requests := snd (servicePendingLoop st (terrain (installRequests st tr t))
                                    (requests (installRequests st tr t)))\<rparr>)"
  using assms by (simp add: servicePendingRequests_def split_def Let_def installRequests_installed)

lemma servicePendingRequests_detached:
  assumes "\<not> requestsInstalled t" and "terrain t = None"
  shows "servicePendingRequests st t = None"
  using assms by (simp add: servicePendingRequests_def)

lemma installColorRequest_terrain:
  "serviceQueue (fst (installColorRequest st f k i trs)) = serviceQueue (fst trs) \<and>
   layerFactory (fst (installColorRequest st f k i trs)) = layerFactory (fst trs) \<and>
   revision (fst (installColorRequest st f k i trs)) = revision (fst trs)"
  by (simp add: installColorRequest_def Let_def split_def getOrCreateTaskService_queue
      getOrCreateTaskService_factory getOrCreateTaskService_revision)

lemma installColorRequests_terrain:
  "serviceQueue (fst (installColorRequests st f k is trs)) = serviceQueue (fst trs) \<and>
   layerFactory (fst (installColorRequests st f k is trs)) = layerFactory (fst trs) \<and>
   revision (fst (installColorRequests st f k is trs)) = revision (fst trs)"
  by (induction "is" arbitrary: trs) (simp_all add: installColorRequest_terrain)

lemma installElevationRequest_terrain:
  "serviceQueue (fst (installElevationRequest st f k trs)) = serviceQueue (fst trs) \<and>
   layerFactory (fst (installElevationRequest st f k trs)) = layerFactory (fst trs) \<and>
   revision (fst (installElevationRequest st f k trs)) = revision (fst trs)"
  by (simp add: installElevationRequest_def Let_def split_def getOrCreateTaskService_queue
      getOrCreateTaskService_factory getOrCreateTaskService_revision)

lemma installRequests_terrain_Some:
  assumes "terrain t = Some tr"
  shows "\<exists>tr1. terrain (installRequests st tr t) = Some tr1 \<and>
               serviceQueue tr1 = serviceQueue tr \<and> layerFactory tr1 = layerFactory tr \<and>
               revision tr1 = revision tr"
  using assms
  by (cases "layerFactory tr")
     (simp_all add: installRequests_def getTileLayerFactory_def Let_def
        installColorRequests_terrain installElevationRequest_terrain)

lemma installRequests_fixed:
  "terrainRevision (installRequests st tr t) = terrainRevision t"
  "elevationLayer (installRequests st tr t) = elevationLayer t"
  "colorLayers (installRequests st tr t) = colorLayers t"
  "dirty (installRequests st tr t) = dirty t"
  by (cases "layerFactory tr"; simp add: installRequests_def getTileLayerFactory_def Let_def)+

text \<open>
  The whole of \<^verbatim>\<open>servicePendingRequests\<close> on a tile with a terrain: it returns, and the
  loop has visited the requests that were there after the installation.
\<close>

lemma servicePendingRequests_attached:
  fixes st :: c_int
  assumes "terrain t = Some tr"
  defines "rs0 \<equiv> (if requestsInstalled t then requests t
                   else requests (installRequests st tr t))"
  shows "\<exists>t' tr'. servicePendingRequests st t = Some t' \<and> terrain t' = Some tr' \<and>
           requestsInstalled t' \<and>
           requests t' = map (serviceOne st) rs0 \<and>
           serviceQueue tr' = serviceQueue tr @ map (setStamp st) (filter isIdle rs0) \<and>
           layerFactory tr' = layerFactory tr \<and> revision tr' = revision tr \<and>
           terrainRevision t' = terrainRevision t \<and> elevationLayer t' = elevationLayer t \<and>
           colorLayers t' = colorLayers t \<and> dirty t' = dirty t"
proof (cases "requestsInstalled t")
  case True
  obtain tr' where tr':
    "servicePendingLoop st (Some tr) (requests t) = (Some tr', map (serviceOne st) (requests t))"
    "serviceQueue tr' = serviceQueue tr @ map (setStamp st) (filter isIdle (requests t))"
    "layerFactory tr' = layerFactory tr" "revision tr' = revision tr"
    using servicePendingLoop_Some by blast
  show ?thesis
    using True assms(1) tr'
    by (simp add: servicePendingRequests_installed rs0_def)
next
  case False
  let ?t1 = "installRequests st tr t"
  obtain tr1 where tr1: "terrain ?t1 = Some tr1" "serviceQueue tr1 = serviceQueue tr"
    "layerFactory tr1 = layerFactory tr" "revision tr1 = revision tr"
    using installRequests_terrain_Some [OF assms(1)] by blast
  obtain tr' where tr':
    "servicePendingLoop st (Some tr1) (requests ?t1) = (Some tr', map (serviceOne st) (requests ?t1))"
    "serviceQueue tr' = serviceQueue tr1 @ map (setStamp st) (filter isIdle (requests ?t1))"
    "layerFactory tr' = layerFactory tr1" "revision tr' = revision tr1"
    using servicePendingLoop_Some by blast
  show ?thesis
    using False tr1 tr'
    by (simp add: servicePendingRequests_first [OF False assms(1)] rs0_def
        installRequests_installed installRequests_fixed)
qed

section \<open>Properties of the harvest\<close>

lemma installResult_terrain_update:
  "installResult r (t\<lparr>terrain := x\<rparr>) = (installResult r t)\<lparr>terrain := x\<rparr>"
  by (simp add: installResult_def setElevationLayer_def setColorLayer_def setDirty_def Let_def
      split: option.splits)

lemma fold_installResult_terrain_update:
  "fold installResult cs (t\<lparr>terrain := x\<rparr>) = (fold installResult cs t)\<lparr>terrain := x\<rparr>"
  by (induction cs arbitrary: t) (simp_all add: installResult_terrain_update)

lemma harvestLoop_completed:
  "isCompleted r \<Longrightarrow> harvestLoop t (r # rs) = harvestLoop (installResult r t) rs"
  by simp

lemma harvestLoop_other:
  "\<not> isCompleted r \<Longrightarrow> \<not> isCanceled r \<Longrightarrow>
   harvestLoop t (r # rs) =
     (case harvestLoop t rs of None \<Rightarrow> None | Some (t', rs') \<Rightarrow> Some (t', r # rs'))"
  by simp

lemma harvestLoop_canceled:
  assumes "isCanceled r" and "terrain t = Some tr"
  shows "harvestLoop t (r # rs) =
     (case harvestLoop (t\<lparr>terrain := Some (snd (getOrCreateTaskService tr))\<rparr>) rs of
        None \<Rightarrow> None
      | Some (t', rs') \<Rightarrow> Some (t', resetCanceled r # rs'))"
proof -
  let ?r2 = "setProgressCallback TileRequestProgressCallback (setState STATE_IDLE r)"
  have nc: "\<not> isCompleted r" using assms(1) by (simp add: isCanceled_def isCompleted_def)
  have r2: "\<not> isCompleted ?r2" "\<not> isCanceled ?r2"
    by (simp_all add: isCompleted_def isCanceled_def setProgressCallback_def setState_def)
  have "harvestLoop t (r # rs) =
        harvestLoop (t\<lparr>terrain := Some (snd (getOrCreateTaskService tr))\<rparr>) (?r2 # rs)"
    using assms nc by (subst harvestLoop.simps(2)) (simp add: split_def Let_def)
  also have "\<dots> =
     (case harvestLoop (t\<lparr>terrain := Some (snd (getOrCreateTaskService tr))\<rparr>) rs of
        None \<Rightarrow> None
      | Some (t', rs') \<Rightarrow> Some (t', ?r2 # rs'))"
    using r2 by (rule harvestLoop_other)
  finally have "harvestLoop t (r # rs) =
     (case harvestLoop (t\<lparr>terrain := Some (snd (getOrCreateTaskService tr))\<rparr>) rs of
        None \<Rightarrow> None
      | Some (t', rs') \<Rightarrow> Some (t', ?r2 # rs'))" .
  moreover have "resetCanceled r = ?r2" using assms(1) by (simp add: resetCanceled_def)
  ultimately show ?thesis by (simp only:)
qed

lemma harvestLoop_canceled_detached:
  "\<not> isCompleted r \<Longrightarrow> isCanceled r \<Longrightarrow> terrain t = None \<Longrightarrow> harvestLoop t (r # rs) = None"
  by simp

declare harvestLoop.simps(2) [simp del]

lemma harvestLoop_result:
  "harvestLoop t rs = Some (t', rs') \<Longrightarrow>
   rs' = map resetCanceled (filter (\<lambda>r. \<not> isCompleted r) rs) \<and>
   t' = (fold installResult (filter isCompleted rs) t)\<lparr>terrain := terrain t'\<rparr> \<and>
   (terrain t \<noteq> None \<longrightarrow> terrain t' \<noteq> None)"
proof (induction rs arbitrary: t t' rs')
  case Nil
  then show ?case by simp
next
  case (Cons r rs)
  show ?case
  proof (cases "isCompleted r")
    case True
    with Cons.prems have "harvestLoop (installResult r t) rs = Some (t', rs')"
      by (simp add: harvestLoop_completed)
    from Cons.IH [OF this] True show ?thesis
      by (simp add: installResult_def setElevationLayer_def setColorLayer_def setDirty_def
          Let_def split: option.splits if_splits)
  next
    case nc: False
    show ?thesis
    proof (cases "isCanceled r")
      case True
      show ?thesis
      proof (cases "terrain t")
        case None
        with nc True Cons.prems show ?thesis
          by (simp add: harvestLoop_canceled_detached)
      next
        case (Some tr)
        let ?t1 = "t\<lparr>terrain := Some (snd (getOrCreateTaskService tr))\<rparr>"
        from Cons.prems True Some obtain rs1 where
          h: "harvestLoop ?t1 rs = Some (t', rs1)" and rs': "rs' = resetCanceled r # rs1"
          by (auto simp: harvestLoop_canceled split: option.splits)
        from Cons.IH [OF h] have
          "rs1 = map resetCanceled (filter (\<lambda>r. \<not> isCompleted r) rs)"
          "t' = (fold installResult (filter isCompleted rs) ?t1)\<lparr>terrain := terrain t'\<rparr>"
          "terrain t' \<noteq> None"
          by simp_all
        then show ?thesis using nc rs'
          by (simp add: fold_installResult_terrain_update)
      qed
    next
      case False
      from Cons.prems nc False obtain rs1 where
        h: "harvestLoop t rs = Some (t', rs1)" and rs': "rs' = r # rs1"
        by (auto simp: harvestLoop_other split: option.splits)
      from Cons.IH [OF h] show ?thesis using nc False rs'
        by (simp add: resetCanceled_def)
    qed
  qed
qed

lemma harvestLoop_total:
  "terrain t \<noteq> None \<or> (\<forall>r\<in>set rs. \<not> isCanceled r) \<Longrightarrow> \<exists>y. harvestLoop t rs = Some y"
proof (induction rs arbitrary: t)
  case Nil
  then show ?case by simp
next
  case (Cons r rs)
  show ?case
  proof (cases "isCompleted r")
    case True
    have "terrain (installResult r t) = terrain t"
      by (simp add: installResult_def setElevationLayer_def setColorLayer_def setDirty_def
          Let_def split: option.splits)
    with Cons.prems have "terrain (installResult r t) \<noteq> None \<or> (\<forall>r\<in>set rs. \<not> isCanceled r)"
      by auto
    from Cons.IH [OF this] True show ?thesis by (simp add: harvestLoop_completed)
  next
    case nc: False
    show ?thesis
    proof (cases "isCanceled r")
      case True
      with Cons.prems obtain tr where tr: "terrain t = Some tr" by auto
      let ?t1 = "t\<lparr>terrain := Some (snd (getOrCreateTaskService tr))\<rparr>"
      have "terrain ?t1 \<noteq> None \<or> (\<forall>r\<in>set rs. \<not> isCanceled r)" by simp
      from Cons.IH [OF this] obtain y where "harvestLoop ?t1 rs = Some y" by blast
      then show ?thesis using True tr
        by (cases y) (simp add: harvestLoop_canceled)
    next
      case False
      from Cons.prems have "terrain t \<noteq> None \<or> (\<forall>r\<in>set rs. \<not> isCanceled r)" by auto
      from Cons.IH [OF this] obtain y where "harvestLoop t rs = Some y" by blast
      then show ?thesis using nc False
        by (cases y) (simp add: harvestLoop_other)
    qed
  qed
qed

lemma serviceCompletedRequests_result:
  assumes "serviceCompletedRequests t = Some t'"
  shows "requests t' = map resetCanceled (filter (\<lambda>r. \<not> isCompleted r) (requests t))"
    and "t' = (fold installResult (filter isCompleted (requests t)) t)
                \<lparr>terrain := terrain t', requests := requests t'\<rparr>"
    and "terrain t \<noteq> None \<Longrightarrow> terrain t' \<noteq> None"
proof -
  from assms obtain t1 rs1 where
    h: "harvestLoop t (requests t) = Some (t1, rs1)" and t': "t' = t1\<lparr>requests := rs1\<rparr>"
    by (auto simp: serviceCompletedRequests_def split: option.splits)
  note r = harvestLoop_result [OF h]
  show "requests t' = map resetCanceled (filter (\<lambda>r. \<not> isCompleted r) (requests t))"
    using r t' by simp
  have "t1 = (fold installResult (filter isCompleted (requests t)) t)\<lparr>terrain := terrain t1\<rparr>"
    using r by blast
  then have "t1\<lparr>requests := rs1\<rparr> =
      (fold installResult (filter isCompleted (requests t)) t)
        \<lparr>terrain := terrain t1, requests := rs1\<rparr>"
    by (metis VersionedTile.update_convs(11))
  then show "t' = (fold installResult (filter isCompleted (requests t)) t)
                \<lparr>terrain := terrain t', requests := requests t'\<rparr>"
    using t' by simp
  show "terrain t' \<noteq> None" if "terrain t \<noteq> None"
    using r t' that by simp
qed

lemma serviceCompletedRequests_total:
  assumes "terrain t \<noteq> None \<or> (\<forall>r\<in>set (requests t). \<not> isCanceled r)"
  shows "\<exists>t'. serviceCompletedRequests t = Some t'"
  using harvestLoop_total [OF assms]
  by (auto simp: serviceCompletedRequests_def)

lemmas installResult_defs =
  installResult_def setElevationLayer_def setColorLayer_def setDirty_def Let_def

lemma installResult_null: "result r = None \<Longrightarrow> installResult r t = t"
  by (simp add: installResult_defs)

lemma installResult_fixed:
  "usePerLayerUpdates (installResult r t) = usePerLayerUpdates t"
  "geometryRevision (installResult r t) = geometryRevision t"
  "terrainRevision (installResult r t) = terrainRevision t"
  "requestsInstalled (installResult r t) = requestsInstalled t"
  "useLayerRequests (installResult r t) = useLayerRequests t"
  "requests (installResult r t) = requests t"
  "terrain (installResult r t) = terrain t"
  by (simp_all add: installResult_defs split: option.splits)

lemma installResult_elevationLayerDirty:
  "elevationLayerDirty (installResult r t) =
   (elevationLayerDirty t \<or> (usePerLayerUpdates t \<and> isElevLayerRequest r \<and> result r \<noteq> None))"
  by (auto simp: installResult_defs split: option.splits)

lemma installResult_colorLayersDirty:
  "colorLayersDirty (installResult r t) =
   (colorLayersDirty t \<or> (usePerLayerUpdates t \<and> \<not> isElevLayerRequest r \<and> result r \<noteq> None))"
  by (auto simp: installResult_defs split: option.splits)

lemma installResult_dirty:
  "dirty (installResult r t) = (dirty t \<or> (\<not> usePerLayerUpdates t \<and> result r \<noteq> None))"
  by (auto simp: installResult_defs split: option.splits)

lemma installResult_elevationLayer:
  "elevationLayer (installResult r t) =
   (if isElevLayerRequest r \<and> result r \<noteq> None then result r else elevationLayer t)"
  by (auto simp: installResult_defs split: option.splits)

lemma installResult_colorLayers_at:
  assumes "req_kind r = TileColorLayerRequest i" and "result r = Some p"
  shows "i < length (colorLayers (installResult r t)) \<and>
         colorLayers (installResult r t) ! i = Some p"
  using assms
  by (auto simp: installResult_defs isElevLayerRequest_def nth_append split: option.splits)

lemma installResult_colorLayers_other:
  assumes "req_kind r \<noteq> TileColorLayerRequest i \<or> result r = None"
    and "i < length (colorLayers t)"
  shows "i < length (colorLayers (installResult r t)) \<and>
         colorLayers (installResult r t) ! i = colorLayers t ! i"
proof (cases "result r")
  case None
  then show ?thesis using assms(2) by (simp add: installResult_null)
next
  case (Some p)
  show ?thesis
  proof (cases "req_kind r")
    case TileElevationLayerRequest
    then show ?thesis using assms(2) Some
      by (simp add: installResult_defs isElevLayerRequest_def)
  next
    case (TileColorLayerRequest j)
    with assms(1) Some have "j \<noteq> i" by auto
    then show ?thesis using assms(2) Some TileColorLayerRequest
      by (auto simp: installResult_defs isElevLayerRequest_def nth_append)
  qed
qed

lemma fold_installResult_null:
  "\<forall>r\<in>set cs. result r = None \<Longrightarrow> fold installResult cs t = t"
  by (induction cs arbitrary: t) (simp_all add: installResult_null)

lemma fold_installResult_fixed:
  "usePerLayerUpdates (fold installResult cs t) = usePerLayerUpdates t"
  "geometryRevision (fold installResult cs t) = geometryRevision t"
  "terrainRevision (fold installResult cs t) = terrainRevision t"
  "requestsInstalled (fold installResult cs t) = requestsInstalled t"
  "useLayerRequests (fold installResult cs t) = useLayerRequests t"
  "requests (fold installResult cs t) = requests t"
  "terrain (fold installResult cs t) = terrain t"
  by (induction cs arbitrary: t) (simp_all add: installResult_fixed)

lemma fold_installResult_elevationLayerDirty:
  "elevationLayerDirty (fold installResult cs t) =
   (elevationLayerDirty t \<or>
    (usePerLayerUpdates t \<and> (\<exists>r\<in>set cs. isElevLayerRequest r \<and> result r \<noteq> None)))"
  by (induction cs arbitrary: t)
     (auto simp: installResult_elevationLayerDirty installResult_fixed)

lemma fold_installResult_colorLayersDirty:
  "colorLayersDirty (fold installResult cs t) =
   (colorLayersDirty t \<or>
    (usePerLayerUpdates t \<and> (\<exists>r\<in>set cs. \<not> isElevLayerRequest r \<and> result r \<noteq> None)))"
  by (induction cs arbitrary: t)
     (auto simp: installResult_colorLayersDirty installResult_fixed)

lemma fold_installResult_dirty:
  "dirty (fold installResult cs t) =
   (dirty t \<or> (\<not> usePerLayerUpdates t \<and> (\<exists>r\<in>set cs. result r \<noteq> None)))"
  by (induction cs arbitrary: t) (auto simp: installResult_dirty installResult_fixed)

lemma fold_installResult_elevationLayer_other:
  "\<forall>r\<in>set cs. \<not> isElevLayerRequest r \<or> result r = None \<Longrightarrow>
   elevationLayer (fold installResult cs t) = elevationLayer t"
  by (induction cs arbitrary: t) (auto simp: installResult_elevationLayer)

lemma fold_installResult_elevationLayer:
  assumes "r \<in> set cs" and "isElevLayerRequest r" and "result r = Some p"
    and "distinct (map req_kind cs)"
  shows "elevationLayer (fold installResult cs t) = Some p"
  using assms
proof (induction cs arbitrary: t)
  case Nil
  then show ?case by simp
next
  case (Cons c cs)
  show ?case
  proof (cases "c = r")
    case True
    have "\<forall>x\<in>set cs. \<not> isElevLayerRequest x"
    proof
      fix x assume "x \<in> set cs"
      then have "req_kind x \<in> set (map req_kind cs)" by simp
      with Cons.prems(4) have "req_kind x \<noteq> req_kind c" by auto
      with True Cons.prems(2) show "\<not> isElevLayerRequest x"
        by (simp add: isElevLayerRequest_def)
    qed
    then have "elevationLayer (fold installResult cs (installResult c t)) =
               elevationLayer (installResult c t)"
      by (intro fold_installResult_elevationLayer_other) blast
    then show ?thesis using True Cons.prems(2,3)
      by (simp add: installResult_elevationLayer)
  next
    case False
    with Cons.prems have "r \<in> set cs" "distinct (map req_kind cs)" by simp_all
    from Cons.IH [OF this(1) Cons.prems(2,3) this(2)] show ?thesis by simp
  qed
qed

lemma fold_installResult_colorLayers_other:
  "\<forall>r\<in>set cs. req_kind r \<noteq> TileColorLayerRequest i \<or> result r = None \<Longrightarrow>
   i < length (colorLayers t) \<Longrightarrow>
   i < length (colorLayers (fold installResult cs t)) \<and>
   colorLayers (fold installResult cs t) ! i = colorLayers t ! i"
proof (induction cs arbitrary: t)
  case Nil
  then show ?case by simp
next
  case (Cons c cs)
  from Cons.prems have c: "req_kind c \<noteq> TileColorLayerRequest i \<or> result c = None"
    and rest: "\<forall>r\<in>set cs. req_kind r \<noteq> TileColorLayerRequest i \<or> result r = None"
    by simp_all
  from installResult_colorLayers_other [OF c Cons.prems(2)]
  have 1: "i < length (colorLayers (installResult c t))"
    and 2: "colorLayers (installResult c t) ! i = colorLayers t ! i" by simp_all
  from Cons.IH [OF rest 1] 2 show ?case by simp
qed

lemma fold_installResult_colorLayers:
  assumes "r \<in> set cs" and "req_kind r = TileColorLayerRequest i" and "result r = Some p"
    and "distinct (map req_kind cs)"
  shows "i < length (colorLayers (fold installResult cs t)) \<and>
         colorLayers (fold installResult cs t) ! i = Some p"
  using assms
proof (induction cs arbitrary: t)
  case Nil
  then show ?case by simp
next
  case (Cons c cs)
  show ?case
  proof (cases "c = r")
    case True
    have rest: "\<forall>x\<in>set cs. req_kind x \<noteq> TileColorLayerRequest i \<or> result x = None"
    proof
      fix x assume "x \<in> set cs"
      then have "req_kind x \<in> set (map req_kind cs)" by simp
      with Cons.prems(4) have "req_kind x \<noteq> req_kind c" by auto
      with True Cons.prems(2)
      show "req_kind x \<noteq> TileColorLayerRequest i \<or> result x = None" by simp
    qed
    from installResult_colorLayers_at [OF Cons.prems(2,3), of t] True
    have 1: "i < length (colorLayers (installResult c t))"
      and 2: "colorLayers (installResult c t) ! i = Some p" by simp_all
    from fold_installResult_colorLayers_other [OF rest 1] 2 show ?thesis by simp
  next
    case False
    with Cons.prems have "r \<in> set cs" "distinct (map req_kind cs)" by simp_all
    from Cons.IH [OF this(1) Cons.prems(2,3) this(2)] show ?thesis by simp
  qed
qed

lemma resetCanceled_not_completed: "\<not> isCompleted r \<Longrightarrow> \<not> isCompleted (resetCanceled r)"
  by (simp add: resetCanceled_def isCompleted_def setProgressCallback_def setState_def)

lemma resetCanceled_kind: "req_kind (resetCanceled r) = req_kind r"
  by (simp add: resetCanceled_def setProgressCallback_def setState_def)

section \<open>Properties of the progress callback\<close>

lemma reportProgress_result:
  "fst (reportProgress s r cb) = (canceled cb \<or> sint (s - r) > 2)"
  by (simp add: reportProgress_def Let_def)

lemma reportProgress_flag:
  "canceled (snd (reportProgress s r cb)) = fst (reportProgress s r cb)"
  by (simp add: reportProgress_def Let_def)

lemma polls_length: "length (polls cb ps) = length ps"
  by (induction ps arbitrary: cb) (auto simp: split_def Let_def)

lemma polls_nth:
  "k < length ps \<Longrightarrow>
   polls cb ps ! k = (canceled cb \<or> (\<exists>j\<le>k. sint (fst (ps ! j) - snd (ps ! j)) > 2))"
proof (induction ps arbitrary: cb k)
  case Nil
  then show ?case by simp
next
  case (Cons p ps)
  obtain s r where p: "p = (s, r)" by (cases p)
  show ?case
  proof (cases k)
    case 0
    then show ?thesis
      by (simp add: p split_def Let_def reportProgress_result)
  next
    case (Suc m)
    with Cons.prems have m: "m < length ps" by simp
    have "polls cb (p # ps) ! k = polls (snd (reportProgress s r cb)) ps ! m"
      by (simp add: p Suc split_def Let_def)
    also have "\<dots> = ((canceled cb \<or> sint (s - r) > 2) \<or>
                     (\<exists>j\<le>m. sint (fst (ps ! j) - snd (ps ! j)) > 2))"
      by (simp add: Cons.IH [OF m] reportProgress_flag reportProgress_result)
    also have "\<dots> = (canceled cb \<or> (\<exists>j\<le>k. sint (fst ((p # ps) ! j) - snd ((p # ps) ! j)) > 2))"
    proof -
      have "(\<exists>j\<le>Suc m. sint (fst ((p # ps) ! j) - snd ((p # ps) ! j)) > 2) =
            (sint (s - r) > 2 \<or> (\<exists>j\<le>m. sint (fst (ps ! j) - snd (ps ! j)) > 2))"
      proof
        assume "\<exists>j\<le>Suc m. sint (fst ((p # ps) ! j) - snd ((p # ps) ! j)) > 2"
        then obtain j where j: "j \<le> Suc m" "sint (fst ((p # ps) ! j) - snd ((p # ps) ! j)) > 2"
          by blast
        show "sint (s - r) > 2 \<or> (\<exists>j\<le>m. sint (fst (ps ! j) - snd (ps ! j)) > 2)"
        proof (cases j)
          case 0
          with j show ?thesis by (simp add: p)
        next
          case (Suc i)
          with j have "i \<le> m" "sint (fst (ps ! i) - snd (ps ! i)) > 2" by simp_all
          then show ?thesis by blast
        qed
      next
        assume "sint (s - r) > 2 \<or> (\<exists>j\<le>m. sint (fst (ps ! j) - snd (ps ! j)) > 2)"
        then show "\<exists>j\<le>Suc m. sint (fst ((p # ps) ! j) - snd ((p # ps) ! j)) > 2"
        proof
          assume "sint (s - r) > 2"
          then have "sint (fst ((p # ps) ! 0) - snd ((p # ps) ! 0)) > 2" by (simp add: p)
          then show ?thesis by blast
        next
          assume "\<exists>j\<le>m. sint (fst (ps ! j) - snd (ps ! j)) > 2"
          then obtain j where "j \<le> m" "sint (fst (ps ! j) - snd (ps ! j)) > 2" by blast
          then have "Suc j \<le> Suc m" "sint (fst ((p # ps) ! Suc j) - snd ((p # ps) ! Suc j)) > 2"
            by simp_all
          then show ?thesis by blast
        qed
      qed
      then show ?thesis by (auto simp: Suc)
    qed
    finally show ?thesis .
  qed
qed

lemma polls_fresh_nth:
  assumes "k < length ps"
  shows "polls TileRequestProgressCallback ps ! k =
         (\<exists>j\<le>k. sint (fst (ps ! j) - snd (ps ! j)) > 2)"
  using polls_nth [OF assms, of TileRequestProgressCallback]
  by (simp add: TileRequestProgressCallback_def)

lemma polls_fresh_step:
  assumes "k < length ps"
  shows "polls TileRequestProgressCallback ps ! k =
         ((\<exists>j<k. polls TileRequestProgressCallback ps ! j) \<or>
          sint (fst (ps ! k) - snd (ps ! k)) > 2)"
proof -
  have earlier: "(\<exists>j<k. polls TileRequestProgressCallback ps ! j) =
                 (\<exists>i<k. sint (fst (ps ! i) - snd (ps ! i)) > 2)"
  proof
    assume "\<exists>j<k. polls TileRequestProgressCallback ps ! j"
    then obtain j where j: "j < k" "polls TileRequestProgressCallback ps ! j" by blast
    from j(1) assms have "j < length ps" by simp
    from polls_fresh_nth [OF this] j(2)
    obtain i where "i \<le> j" "sint (fst (ps ! i) - snd (ps ! i)) > 2" by blast
    with j(1) have "i < k" by simp
    with \<open>sint (fst (ps ! i) - snd (ps ! i)) > 2\<close>
    show "\<exists>i<k. sint (fst (ps ! i) - snd (ps ! i)) > 2" by blast
  next
    assume "\<exists>i<k. sint (fst (ps ! i) - snd (ps ! i)) > 2"
    then obtain i where i: "i < k" "sint (fst (ps ! i) - snd (ps ! i)) > 2" by blast
    from i(1) assms have "i < length ps" by simp
    from polls_fresh_nth [OF this] i(2)
    have "polls TileRequestProgressCallback ps ! i" by blast
    with i(1) show "\<exists>j<k. polls TileRequestProgressCallback ps ! j" by blast
  qed
  have "(\<exists>j\<le>k. sint (fst (ps ! j) - snd (ps ! j)) > 2) =
        ((\<exists>i<k. sint (fst (ps ! i) - snd (ps ! i)) > 2) \<or> sint (fst (ps ! k) - snd (ps ! k)) > 2)"
    by (metis le_neq_implies_less nat_less_le order_refl)
  with polls_fresh_nth [OF assms] earlier show ?thesis by simp
qed

lemma sint_difference:
  assumes "differenceFits s r"
  shows "sint (s - r) = sint s - sint r"
proof -
  have "sint (s - r) = signed_take_bit 31 (sint s - sint r)"
    by (simp add: sint_word_ariths)
  also have "\<dots> = sint s - sint r"
    using assms by (intro signed_take_bit_int_eq_self) (simp_all add: differenceFits_def)
  finally show ?thesis .
qed

lemma differenceFits_nonneg:
  assumes "0 \<le> sint s" and "0 \<le> sint r"
  shows "differenceFits s r"
proof -
  have "sint s < 2 ^ 31" "sint r < 2 ^ 31"
    using sint_lt [of s] sint_lt [of r] by simp_all
  with assms show ?thesis by (simp add: differenceFits_def)
qed

text \<open>
  At the edge of the range the subtraction wraps around: with the service at stamp
  \<open>2^31 - 1\<close> and a request stamped \<open>- 1\<close> the difference computed is \<open>- 2^31\<close>, and
  the callback does not report cancelled. Stamps that count update cycles from 0 are
  never negative, and their difference always fits.
\<close>

lemma reportProgress_wraps:
  "\<not> differenceFits 2147483647 (- 1) \<and>
   fst (reportProgress 2147483647 (- 1) TileRequestProgressCallback) = False"
  by (simp add: differenceFits_def reportProgress_def TileRequestProgressCallback_def Let_def)

text \<open>
  Claim C2. One call of \<open>reportProgress\<close> returns cancelled exactly when the callback
  was already cancelled or the stamp of the task service minus the stamp of the request,
  as the subtraction of \<^verbatim>\<open>int\<close> computes it, is more than 2; whenever the difference
  of the two stamps fits into an \<^verbatim>\<open>int\<close> (as it does for stamps that are not
  negative) this is the difference of the two numbers. The call leaves the flag equal to
  what it returned. For a new callback polled any number of times, with the stamps of
  each moment, the call number \<open>k\<close> returns cancelled exactly when an earlier call
  returned cancelled or the difference of the stamps at call \<open>k\<close> is more than 2 (the
  difference computed, which is the difference of the two numbers when that fits). So a
  request that lags by more than two cycles is reported cancelled at its next poll, and
  after one cancelled answer every later answer is cancelled.
\<close>

theorem C2_reportProgress_cancelled_iff:
  "fst (reportProgress s r cb) = (canceled cb \<or> sint (s - r) > 2) \<and>
   (differenceFits s r \<longrightarrow>
      fst (reportProgress s r cb) = (canceled cb \<or> sint s - sint r > 2)) \<and>
   canceled (snd (reportProgress s r cb)) = fst (reportProgress s r cb) \<and>
   (\<forall>k<length ps.
      polls TileRequestProgressCallback ps ! k =
        ((\<exists>j<k. polls TileRequestProgressCallback ps ! j) \<or>
         sint (fst (ps ! k) - snd (ps ! k)) > 2)) \<and>
   (\<forall>k<length ps.
      differenceFits (fst (ps ! k)) (snd (ps ! k)) \<longrightarrow>
      polls TileRequestProgressCallback ps ! k =
        ((\<exists>j<k. polls TileRequestProgressCallback ps ! j) \<or>
         sint (fst (ps ! k)) - sint (snd (ps ! k)) > 2))"
proof (intro conjI allI impI)
  show "fst (reportProgress s r cb) = (canceled cb \<or> sint (s - r) > 2)"
    by (rule reportProgress_result)
  show "fst (reportProgress s r cb) = (canceled cb \<or> sint s - sint r > 2)"
    if "differenceFits s r"
    using sint_difference [OF that] by (simp add: reportProgress_result)
  show "canceled (snd (reportProgress s r cb)) = fst (reportProgress s r cb)"
    by (rule reportProgress_flag)
  show "polls TileRequestProgressCallback ps ! k =
        ((\<exists>j<k. polls TileRequestProgressCallback ps ! j) \<or>
         sint (fst (ps ! k) - snd (ps ! k)) > 2)"
    if "k < length ps" for k
    using that by (rule polls_fresh_step)
  show "polls TileRequestProgressCallback ps ! k =
        ((\<exists>j<k. polls TileRequestProgressCallback ps ! j) \<or>
         sint (fst (ps ! k)) - sint (snd (ps ! k)) > 2)"
    if "k < length ps" and "differenceFits (fst (ps ! k)) (snd (ps ! k))" for k
    using polls_fresh_step [OF that(1)] sint_difference [OF that(2)] by simp
qed

theorem C2_reportProgress_witness:
  "differenceFits 8 5 \<and> fst (reportProgress 8 5 TileRequestProgressCallback) \<and>
   (1::nat) < length ([(5, 5), (8, 5), (6, 6)] :: (c_int \<times> c_int) list) \<and>
   differenceFits (fst (([(5, 5), (8, 5), (6, 6)] :: (c_int \<times> c_int) list) ! 1))
                  (snd (([(5, 5), (8, 5), (6, 6)] :: (c_int \<times> c_int) list) ! 1)) \<and>
   polls TileRequestProgressCallback [(5, 5), (8, 5), (6, 6)] ! 1 \<and>
   (2::nat) < length ([(5, 5), (8, 5), (6, 6)] :: (c_int \<times> c_int) list) \<and>
   polls TileRequestProgressCallback [(5, 5), (8, 5), (6, 6)] ! 2"
proof -
  let ?ps = "[(5, 5), (8, 5), (6, 6)] :: (c_int \<times> c_int) list"
  note inst = C2_reportProgress_cancelled_iff [of 8 5 TileRequestProgressCallback ?ps]
  have fits: "differenceFits 8 5" by (simp add: differenceFits_def)
  have one: "fst (reportProgress 8 5 TileRequestProgressCallback)"
  proof -
    from inst have "differenceFits 8 5 \<longrightarrow>
        fst (reportProgress 8 5 TileRequestProgressCallback) =
          (canceled TileRequestProgressCallback \<or> sint (8 :: c_int) - sint (5 :: c_int) > 2)"
      by (rule conjunct1 [OF conjunct2])
    with fits show ?thesis by simp
  qed
  have all: "\<forall>k<length ?ps.
      polls TileRequestProgressCallback ?ps ! k =
        ((\<exists>j<k. polls TileRequestProgressCallback ?ps ! j) \<or>
         sint (fst (?ps ! k) - snd (?ps ! k)) > 2)"
    using inst by (rule conjunct1 [OF conjunct2 [OF conjunct2 [OF conjunct2]]])
  have exact: "\<forall>k<length ?ps.
      differenceFits (fst (?ps ! k)) (snd (?ps ! k)) \<longrightarrow>
      polls TileRequestProgressCallback ?ps ! k =
        ((\<exists>j<k. polls TileRequestProgressCallback ?ps ! j) \<or>
         sint (fst (?ps ! k)) - sint (snd (?ps ! k)) > 2)"
    using inst by (rule conjunct2 [OF conjunct2 [OF conjunct2 [OF conjunct2]]])
  have l1: "(1::nat) < length ?ps" and l2: "(2::nat) < length ?ps" by simp_all
  have f1: "differenceFits (fst (?ps ! 1)) (snd (?ps ! 1))" using fits by simp
  have "polls TileRequestProgressCallback ?ps ! 1 =
        ((\<exists>j<1. polls TileRequestProgressCallback ?ps ! j) \<or>
         sint (fst (?ps ! 1)) - sint (snd (?ps ! 1)) > 2)"
    using exact l1 f1 by blast
  then have p1: "polls TileRequestProgressCallback ?ps ! 1" by simp
  have "polls TileRequestProgressCallback ?ps ! 2 =
        ((\<exists>j<2. polls TileRequestProgressCallback ?ps ! j) \<or>
         sint (fst (?ps ! 2) - snd (?ps ! 2)) > 2)"
    using all l2 by blast
  moreover have "\<exists>j<2::nat. polls TileRequestProgressCallback ?ps ! j"
    using p1 by (intro exI [of _ 1]) simp
  ultimately have p2: "polls TileRequestProgressCallback ?ps ! 2" by blast
  from fits one l1 f1 p1 l2 p2 show ?thesis by (intro conjI)
qed

section \<open>The harvest of completed requests (claim C4)\<close>

lemmas example_defs =
  exampleKey_def exampleTerrain_def exampleTile_def exampleRequest_def harvestTile_def
  absentTile_def wholeTile_def
  VersionedTile_def VersionedTerrain_def TileLayerRequest_def TileRequestProgressCallback_def
  isIdle_def isCompleted_def isCanceled_def isElevLayerRequest_def

text \<open>
  Claim C4. The harvest returns on every tile that has a terrain (or no cancelled
  request). Afterwards no completed request is left in the collection, and the requests
  kept are the others, in order. Each per-layer flag and the dirty flag of the whole tile
  are set exactly when they were set before or a completed request of that sort with a
  payload was harvested in the matching mode: the elevation flag and the color flag in
  the per-layer mode, the whole-tile flag otherwise. With at most one request per layer,
  the payload of a completed elevation request is the elevation layer afterwards, and
  the payload of a completed color request is at its layer index. When every completed
  request has a null payload, no layer and no flag changes.
\<close>

theorem C4_harvest_completed:
  assumes "terrain t \<noteq> None \<or> (\<forall>r\<in>set (requests t). \<not> isCanceled r)"
  shows "\<exists>t'. serviceCompletedRequests t = Some t' \<and>
    (\<forall>r\<in>set (requests t'). \<not> isCompleted r) \<and>
    map req_kind (requests t') = map req_kind (filter (\<lambda>r. \<not> isCompleted r) (requests t)) \<and>
    elevationLayerDirty t' =
      (elevationLayerDirty t \<or>
       (usePerLayerUpdates t \<and>
        (\<exists>r\<in>set (requests t). isCompleted r \<and> isElevLayerRequest r \<and> result r \<noteq> None))) \<and>
    colorLayersDirty t' =
      (colorLayersDirty t \<or>
       (usePerLayerUpdates t \<and>
        (\<exists>r\<in>set (requests t). isCompleted r \<and> \<not> isElevLayerRequest r \<and> result r \<noteq> None))) \<and>
    dirty t' =
      (dirty t \<or>
       (\<not> usePerLayerUpdates t \<and>
        (\<exists>r\<in>set (requests t). isCompleted r \<and> result r \<noteq> None))) \<and>
    (distinct (map req_kind (requests t)) \<longrightarrow>
       (\<forall>r\<in>set (requests t). \<forall>p. isCompleted r \<and> result r = Some p \<longrightarrow>
          (case req_kind r of
             TileElevationLayerRequest \<Rightarrow> elevationLayer t' = Some p
           | TileColorLayerRequest i \<Rightarrow>
               i < length (colorLayers t') \<and> colorLayers t' ! i = Some p))) \<and>
    ((\<forall>r\<in>set (requests t). isCompleted r \<longrightarrow> result r = None) \<longrightarrow>
       elevationLayer t' = elevationLayer t \<and> colorLayers t' = colorLayers t)"
proof -
  from serviceCompletedRequests_total [OF assms]
  obtain t' where t': "serviceCompletedRequests t = Some t'" by blast
  let ?cs = "filter isCompleted (requests t)"
  let ?u = "fold installResult ?cs t"
  note res = serviceCompletedRequests_result [OF t']
  have fields:
    "elevationLayerDirty t' = elevationLayerDirty ?u"
    "colorLayersDirty t' = colorLayersDirty ?u"
    "dirty t' = dirty ?u"
    "elevationLayer t' = elevationLayer ?u"
    "colorLayers t' = colorLayers ?u"
    by (subst res(2), simp)+
  have kept: "\<forall>r\<in>set (requests t'). \<not> isCompleted r"
    by (simp add: res(1) resetCanceled_not_completed)
  have kinds: "map req_kind (requests t') =
               map req_kind (filter (\<lambda>r. \<not> isCompleted r) (requests t))"
    by (simp add: res(1) comp_def resetCanceled_kind)
  have e: "elevationLayerDirty t' =
      (elevationLayerDirty t \<or>
       (usePerLayerUpdates t \<and>
        (\<exists>r\<in>set (requests t). isCompleted r \<and> isElevLayerRequest r \<and> result r \<noteq> None)))"
    by (auto simp: fields fold_installResult_elevationLayerDirty)
  have c: "colorLayersDirty t' =
      (colorLayersDirty t \<or>
       (usePerLayerUpdates t \<and>
        (\<exists>r\<in>set (requests t). isCompleted r \<and> \<not> isElevLayerRequest r \<and> result r \<noteq> None)))"
    by (auto simp: fields fold_installResult_colorLayersDirty)
  have d: "dirty t' =
      (dirty t \<or>
       (\<not> usePerLayerUpdates t \<and>
        (\<exists>r\<in>set (requests t). isCompleted r \<and> result r \<noteq> None)))"
    by (auto simp: fields fold_installResult_dirty)
  have layers: "distinct (map req_kind (requests t)) \<longrightarrow>
       (\<forall>r\<in>set (requests t). \<forall>p. isCompleted r \<and> result r = Some p \<longrightarrow>
          (case req_kind r of
             TileElevationLayerRequest \<Rightarrow> elevationLayer t' = Some p
           | TileColorLayerRequest i \<Rightarrow>
               i < length (colorLayers t') \<and> colorLayers t' ! i = Some p))"
  proof (intro impI ballI allI)
    fix r p
    assume dist: "distinct (map req_kind (requests t))"
      and r: "r \<in> set (requests t)" and rp: "isCompleted r \<and> result r = Some p"
    from dist have dcs: "distinct (map req_kind ?cs)" by (rule distinct_map_filter)
    from r rp have rcs: "r \<in> set ?cs" by simp
    show "case req_kind r of
            TileElevationLayerRequest \<Rightarrow> elevationLayer t' = Some p
          | TileColorLayerRequest i \<Rightarrow>
              i < length (colorLayers t') \<and> colorLayers t' ! i = Some p"
    proof (cases "req_kind r")
      case TileElevationLayerRequest
      then have "isElevLayerRequest r" by (simp add: isElevLayerRequest_def)
      from fold_installResult_elevationLayer [OF rcs this _ dcs, of p t] rp
      show ?thesis by (simp add: TileElevationLayerRequest fields)
    next
      case (TileColorLayerRequest i)
      from fold_installResult_colorLayers [OF rcs this _ dcs, of p t] rp
      show ?thesis by (simp add: TileColorLayerRequest fields)
    qed
  qed
  have nulls: "(\<forall>r\<in>set (requests t). isCompleted r \<longrightarrow> result r = None) \<longrightarrow>
       elevationLayer t' = elevationLayer t \<and> colorLayers t' = colorLayers t"
  proof
    assume "\<forall>r\<in>set (requests t). isCompleted r \<longrightarrow> result r = None"
    then have "\<forall>r\<in>set ?cs. result r = None" by simp
    then have "?u = t" by (rule fold_installResult_null)
    then show "elevationLayer t' = elevationLayer t \<and> colorLayers t' = colorLayers t"
      by (simp add: fields)
  qed
  from t' kept kinds e c d layers nulls show ?thesis by blast
qed

theorem C4_harvest_completed_witness:
  "terrain harvestTile \<noteq> None \<and>
   (\<exists>t'. serviceCompletedRequests harvestTile = Some t' \<and>
      map req_kind (requests t') = [TileColorLayerRequest 1] \<and>
      elevationLayerDirty t' \<and> \<not> colorLayersDirty t' \<and> \<not> dirty t' \<and>
      elevationLayer t' = Some (Layer 10)) \<and>
   terrain absentTile \<noteq> None \<and>
   (\<exists>t'. serviceCompletedRequests absentTile = Some t' \<and>
      map req_kind (requests t') = [] \<and>
      \<not> elevationLayerDirty t' \<and> \<not> colorLayersDirty t' \<and> \<not> dirty t' \<and>
      elevationLayer t' = Some (Layer 0) \<and>
      colorLayers t' = [Some (Layer 1), Some (Layer 2)])"
proof -
  have h: "terrain harvestTile \<noteq> None \<or> (\<forall>r\<in>set (requests harvestTile). \<not> isCanceled r)"
    by (simp add: example_defs)
  have dist: "distinct (map req_kind (requests harvestTile))"
    by (simp add: example_defs)
  have mem: "exampleRequest TileElevationLayerRequest STATE_COMPLETED (Some (Layer 10))
             \<in> set (requests harvestTile)"
    by (simp add: harvestTile_def)
  from C4_harvest_completed [OF h] obtain t' where
    t': "serviceCompletedRequests harvestTile = Some t'"
    and kinds: "map req_kind (requests t') =
                map req_kind (filter (\<lambda>r. \<not> isCompleted r) (requests harvestTile))"
    and e: "elevationLayerDirty t' =
      (elevationLayerDirty harvestTile \<or>
       (usePerLayerUpdates harvestTile \<and>
        (\<exists>r\<in>set (requests harvestTile).
            isCompleted r \<and> isElevLayerRequest r \<and> result r \<noteq> None)))"
    and c: "colorLayersDirty t' =
      (colorLayersDirty harvestTile \<or>
       (usePerLayerUpdates harvestTile \<and>
        (\<exists>r\<in>set (requests harvestTile).
            isCompleted r \<and> \<not> isElevLayerRequest r \<and> result r \<noteq> None)))"
    and d: "dirty t' =
      (dirty harvestTile \<or>
       (\<not> usePerLayerUpdates harvestTile \<and>
        (\<exists>r\<in>set (requests harvestTile). isCompleted r \<and> result r \<noteq> None)))"
    and layers: "distinct (map req_kind (requests harvestTile)) \<longrightarrow>
       (\<forall>r\<in>set (requests harvestTile). \<forall>p. isCompleted r \<and> result r = Some p \<longrightarrow>
          (case req_kind r of
             TileElevationLayerRequest \<Rightarrow> elevationLayer t' = Some p
           | TileColorLayerRequest i \<Rightarrow>
               i < length (colorLayers t') \<and> colorLayers t' ! i = Some p))"
    by (elim exE conjE)
  have 1: "map req_kind (requests t') = [TileColorLayerRequest 1]"
    unfolding kinds by (simp add: example_defs)
  have 2: "elevationLayerDirty t'" unfolding e by (simp add: example_defs)
  have 3: "\<not> colorLayersDirty t'" unfolding c by (simp add: example_defs)
  have 4: "\<not> dirty t'" unfolding d by (simp add: example_defs)
  have 5: "elevationLayer t' = Some (Layer 10)"
    using layers dist mem by (fastforce simp: exampleRequest_def TileLayerRequest_def isCompleted_def)
  have 0: "terrain harvestTile \<noteq> None" by (simp add: example_defs)
  from t' 1 2 3 4 5 have
    "\<exists>t'. serviceCompletedRequests harvestTile = Some t' \<and>
      map req_kind (requests t') = [TileColorLayerRequest 1] \<and>
      elevationLayerDirty t' \<and> \<not> colorLayersDirty t' \<and> \<not> dirty t' \<and>
      elevationLayer t' = Some (Layer 10)"
    by (intro exI [of _ t']) simp
  note first = this
  have h2: "terrain absentTile \<noteq> None \<or> (\<forall>r\<in>set (requests absentTile). \<not> isCanceled r)"
    by (simp add: example_defs)
  have nulls: "\<forall>r\<in>set (requests absentTile). isCompleted r \<longrightarrow> result r = None"
    by (simp add: example_defs)
  from C4_harvest_completed [OF h2] obtain t2 where
    t2: "serviceCompletedRequests absentTile = Some t2"
    and kinds2: "map req_kind (requests t2) =
                map req_kind (filter (\<lambda>r. \<not> isCompleted r) (requests absentTile))"
    and e2: "elevationLayerDirty t2 =
      (elevationLayerDirty absentTile \<or>
       (usePerLayerUpdates absentTile \<and>
        (\<exists>r\<in>set (requests absentTile).
            isCompleted r \<and> isElevLayerRequest r \<and> result r \<noteq> None)))"
    and c2: "colorLayersDirty t2 =
      (colorLayersDirty absentTile \<or>
       (usePerLayerUpdates absentTile \<and>
        (\<exists>r\<in>set (requests absentTile).
            isCompleted r \<and> \<not> isElevLayerRequest r \<and> result r \<noteq> None)))"
    and d2: "dirty t2 =
      (dirty absentTile \<or>
       (\<not> usePerLayerUpdates absentTile \<and>
        (\<exists>r\<in>set (requests absentTile). isCompleted r \<and> result r \<noteq> None)))"
    and same: "(\<forall>r\<in>set (requests absentTile). isCompleted r \<longrightarrow> result r = None) \<longrightarrow>
       elevationLayer t2 = elevationLayer absentTile \<and> colorLayers t2 = colorLayers absentTile"
    by (elim exE conjE)
  have 6: "map req_kind (requests t2) = []"
    unfolding kinds2 by (simp add: example_defs)
  have 7: "\<not> elevationLayerDirty t2" unfolding e2 by (simp add: example_defs)
  have 8: "\<not> colorLayersDirty t2" unfolding c2 by (simp add: example_defs)
  have 9: "\<not> dirty t2" unfolding d2 by (simp add: example_defs)
  from same nulls have "elevationLayer t2 = elevationLayer absentTile"
    "colorLayers t2 = colorLayers absentTile" by simp_all
  then have 10: "elevationLayer t2 = Some (Layer 0)"
    "colorLayers t2 = [Some (Layer 1), Some (Layer 2)]"
    by (simp_all add: example_defs)
  from t2 6 7 8 9 10 have second:
    "\<exists>t'. serviceCompletedRequests absentTile = Some t' \<and>
      map req_kind (requests t') = [] \<and>
      \<not> elevationLayerDirty t' \<and> \<not> colorLayersDirty t' \<and> \<not> dirty t' \<and>
      elevationLayer t' = Some (Layer 0) \<and>
      colorLayers t' = [Some (Layer 1), Some (Layer 2)]"
    by (intro exI [of _ t2]) simp
  have 00: "terrain absentTile \<noteq> None" by (simp add: example_defs)
  from 0 first 00 second show ?thesis by (intro conjI)
qed


section \<open>Cancelled, idle and completed requests (claims C5 and C6)\<close>

text \<open>
  Claim C5. On a tile with a terrain the harvest returns; a cancelled request is kept
  in the collection, at its place among the requests that are not completed, with its
  state reset to Idle and a new progress callback; no request is cancelled or completed
  after the harvest. A servicing pass appends to the queue of the task service exactly
  the Idle requests (with the new stamp), so every request it submits is Idle: neither
  a cancelled nor a completed request is ever submitted.
\<close>

theorem C5_canceled_reset_only_idle_submitted:
  assumes "terrain t = Some tr"
  shows "(\<exists>t'. serviceCompletedRequests t = Some t' \<and>
            requests t' =
              map (\<lambda>r. if isCanceled r
                        then r\<lparr>state := STATE_IDLE, progress := Some \<lparr>canceled = False\<rparr>\<rparr>
                        else r)
                  (filter (\<lambda>r. \<not> isCompleted r) (requests t)) \<and>
            (\<forall>r\<in>set (requests t). isCanceled r \<longrightarrow>
               r\<lparr>state := STATE_IDLE, progress := Some \<lparr>canceled = False\<rparr>\<rparr> \<in> set (requests t')) \<and>
            (\<forall>r\<in>set (requests t'). \<not> isCanceled r \<and> \<not> isCompleted r)) \<and>
         (\<exists>t' tr' submitted.
            servicePendingRequests st t = Some t' \<and> terrain t' = Some tr' \<and>
            serviceQueue tr' = serviceQueue tr @ submitted \<and>
            submitted =
              map (\<lambda>r. r\<lparr>stamp := st\<rparr>)
                (filter isIdle (if requestsInstalled t then requests t
                                else requests (installRequests st tr t))) \<and>
            (\<forall>r\<in>set submitted. isIdle r \<and> \<not> isCanceled r \<and> \<not> isCompleted r))"
proof
  from assms have "terrain t \<noteq> None \<or> (\<forall>r\<in>set (requests t). \<not> isCanceled r)" by simp
  from serviceCompletedRequests_total [OF this]
  obtain t' where t': "serviceCompletedRequests t = Some t'" by blast
  have rc: "resetCanceled =
            (\<lambda>r. if isCanceled r
                  then r\<lparr>state := STATE_IDLE, progress := Some \<lparr>canceled = False\<rparr>\<rparr>
                  else r)"
    by (rule ext)
       (simp add: resetCanceled_def setProgressCallback_def setState_def
          TileRequestProgressCallback_def)
  have eq: "requests t' =
              map (\<lambda>r. if isCanceled r
                        then r\<lparr>state := STATE_IDLE, progress := Some \<lparr>canceled = False\<rparr>\<rparr>
                        else r)
                  (filter (\<lambda>r. \<not> isCompleted r) (requests t))"
    using serviceCompletedRequests_result(1) [OF t'] by (simp only: rc)
  have kept: "\<forall>r\<in>set (requests t). isCanceled r \<longrightarrow>
               r\<lparr>state := STATE_IDLE, progress := Some \<lparr>canceled = False\<rparr>\<rparr> \<in> set (requests t')"
  proof (intro ballI impI)
    fix r assume r: "r \<in> set (requests t)" "isCanceled r"
    then have "\<not> isCompleted r" by (simp add: isCanceled_def isCompleted_def)
    with r have "r \<in> set (filter (\<lambda>r. \<not> isCompleted r) (requests t))" by simp
    then have "(if isCanceled r
                then r\<lparr>state := STATE_IDLE, progress := Some \<lparr>canceled = False\<rparr>\<rparr>
                else r) \<in> set (requests t')"
      unfolding eq set_map by (rule imageI)
    with r(2) show "r\<lparr>state := STATE_IDLE, progress := Some \<lparr>canceled = False\<rparr>\<rparr>
                    \<in> set (requests t')" by simp
  qed
  have after: "\<forall>r\<in>set (requests t'). \<not> isCanceled r \<and> \<not> isCompleted r"
    unfolding eq by (auto simp: isCanceled_def isCompleted_def)
  from t' eq kept after
  show "\<exists>t'. serviceCompletedRequests t = Some t' \<and>
            requests t' =
              map (\<lambda>r. if isCanceled r
                        then r\<lparr>state := STATE_IDLE, progress := Some \<lparr>canceled = False\<rparr>\<rparr>
                        else r)
                  (filter (\<lambda>r. \<not> isCompleted r) (requests t)) \<and>
            (\<forall>r\<in>set (requests t). isCanceled r \<longrightarrow>
               r\<lparr>state := STATE_IDLE, progress := Some \<lparr>canceled = False\<rparr>\<rparr> \<in> set (requests t')) \<and>
            (\<forall>r\<in>set (requests t'). \<not> isCanceled r \<and> \<not> isCompleted r)"
    by blast
next
  let ?rs0 = "if requestsInstalled t then requests t else requests (installRequests st tr t)"
  let ?sub = "map (\<lambda>r. r\<lparr>stamp := st\<rparr>) (filter isIdle ?rs0)"
  from servicePendingRequests_attached [OF assms, of st]
  obtain t' tr' where t': "servicePendingRequests st t = Some t'" "terrain t' = Some tr'"
    and q: "serviceQueue tr' = serviceQueue tr @ map (setStamp st) (filter isIdle ?rs0)"
    by blast
  have ss: "setStamp st = (\<lambda>r. r\<lparr>stamp := st\<rparr>)" by (rule ext) (simp add: setStamp_def)
  have q': "serviceQueue tr' = serviceQueue tr @ ?sub" using q by (simp only: ss)
  have idle: "\<forall>r\<in>set ?sub. isIdle r \<and> \<not> isCanceled r \<and> \<not> isCompleted r"
    by (auto simp: isIdle_def isCanceled_def isCompleted_def)
  from t' q' idle
  show "\<exists>t' tr' submitted.
            servicePendingRequests st t = Some t' \<and> terrain t' = Some tr' \<and>
            serviceQueue tr' = serviceQueue tr @ submitted \<and>
            submitted = ?sub \<and>
            (\<forall>r\<in>set submitted. isIdle r \<and> \<not> isCanceled r \<and> \<not> isCompleted r)"
    by blast
qed

theorem C5_canceled_reset_witness:
  "terrain harvestTile = Some exampleTerrain \<and>
   (\<exists>t'. serviceCompletedRequests harvestTile = Some t' \<and>
         requests t' = [exampleRequest (TileColorLayerRequest 1) STATE_IDLE None]) \<and>
   terrain serviceTile = Some exampleTerrain \<and>
   (\<exists>t' tr'. servicePendingRequests 7 serviceTile = Some t' \<and> terrain t' = Some tr' \<and>
         serviceQueue tr' =
           [(exampleRequest TileElevationLayerRequest STATE_IDLE None)\<lparr>stamp := 7\<rparr>])"
proof -
  have h1: "terrain harvestTile = Some exampleTerrain"
    by (simp add: harvestTile_def exampleTile_def)
  have h2: "terrain serviceTile = Some exampleTerrain"
    by (simp add: serviceTile_def exampleTile_def)
  from C5_canceled_reset_only_idle_submitted [OF h1, of 7]
  obtain t1 where t1: "serviceCompletedRequests harvestTile = Some t1"
    and r1: "requests t1 =
              map (\<lambda>r. if isCanceled r
                        then r\<lparr>state := STATE_IDLE, progress := Some \<lparr>canceled = False\<rparr>\<rparr>
                        else r)
                  (filter (\<lambda>r. \<not> isCompleted r) (requests harvestTile))"
    by blast
  have "requests t1 = [exampleRequest (TileColorLayerRequest 1) STATE_IDLE None]"
    unfolding r1 by (simp add: example_defs)
  with t1 have a: "\<exists>t'. serviceCompletedRequests harvestTile = Some t' \<and>
         requests t' = [exampleRequest (TileColorLayerRequest 1) STATE_IDLE None]"
    by blast
  from C5_canceled_reset_only_idle_submitted [OF h2, of 7]
  obtain t2 tr2 where t2: "servicePendingRequests 7 serviceTile = Some t2"
    "terrain t2 = Some tr2"
    and q: "serviceQueue tr2 = serviceQueue exampleTerrain @
              map (\<lambda>r. r\<lparr>stamp := 7\<rparr>)
                (filter isIdle (if requestsInstalled serviceTile then requests serviceTile
                                else requests (installRequests 7 exampleTerrain serviceTile)))"
    by blast
  have "serviceQueue tr2 =
          [(exampleRequest TileElevationLayerRequest STATE_IDLE None)\<lparr>stamp := 7\<rparr>]"
    unfolding q by (simp add: serviceTile_def example_defs serviceQueue_def)
  with t2 have b: "\<exists>t' tr'. servicePendingRequests 7 serviceTile = Some t' \<and>
         terrain t' = Some tr' \<and>
         serviceQueue tr' =
           [(exampleRequest TileElevationLayerRequest STATE_IDLE None)\<lparr>stamp := 7\<rparr>]"
    by blast
  from h1 a h2 b show ?thesis by (intro conjI)
qed

text \<open>
  Claim C6. A servicing pass with stamp \<open>st\<close> on a tile with a terrain returns. It
  visits the requests that are outstanding after the installation step (those of the
  tile when the installation has been done before). An Idle request gets the stamp
  \<open>st\<close> and is appended to the queue of the task service; a request that is neither
  Idle nor Completed gets the stamp \<open>st\<close> and is not submitted; a Completed request
  is left as it is and is not submitted. The queue grows by the Idle requests, in
  order, and by nothing else.
\<close>

theorem C6_service_pass:
  fixes st :: c_int
  assumes "terrain t = Some tr"
  defines "rs0 \<equiv> (if requestsInstalled t then requests t
                   else requests (installRequests st tr t))"
  shows "\<exists>t' tr'. servicePendingRequests st t = Some t' \<and> terrain t' = Some tr' \<and>
      length (requests t') = length rs0 \<and>
      (\<forall>i<length rs0.
         (isIdle (rs0 ! i) \<longrightarrow> requests t' ! i = (rs0 ! i)\<lparr>stamp := st\<rparr>) \<and>
         (\<not> isIdle (rs0 ! i) \<and> \<not> isCompleted (rs0 ! i) \<longrightarrow>
            requests t' ! i = (rs0 ! i)\<lparr>stamp := st\<rparr>) \<and>
         (isCompleted (rs0 ! i) \<longrightarrow> requests t' ! i = rs0 ! i)) \<and>
      serviceQueue tr' = serviceQueue tr @ map (\<lambda>r. r\<lparr>stamp := st\<rparr>) (filter isIdle rs0)"
proof -
  from servicePendingRequests_attached [OF assms(1), of st]
  obtain t' tr' where t': "servicePendingRequests st t = Some t'" "terrain t' = Some tr'"
    and rs: "requests t' = map (serviceOne st) rs0"
    and q: "serviceQueue tr' = serviceQueue tr @ map (setStamp st) (filter isIdle rs0)"
    unfolding rs0_def by blast
  have ss: "setStamp st = (\<lambda>r. r\<lparr>stamp := st\<rparr>)" by (rule ext) (simp add: setStamp_def)
  have len: "length (requests t') = length rs0" by (simp add: rs)
  have each: "\<forall>i<length rs0.
         (isIdle (rs0 ! i) \<longrightarrow> requests t' ! i = (rs0 ! i)\<lparr>stamp := st\<rparr>) \<and>
         (\<not> isIdle (rs0 ! i) \<and> \<not> isCompleted (rs0 ! i) \<longrightarrow>
            requests t' ! i = (rs0 ! i)\<lparr>stamp := st\<rparr>) \<and>
         (isCompleted (rs0 ! i) \<longrightarrow> requests t' ! i = rs0 ! i)"
    by (simp add: rs serviceOne_def setStamp_def isIdle_def isCompleted_def)
  have q': "serviceQueue tr' =
            serviceQueue tr @ map (\<lambda>r. r\<lparr>stamp := st\<rparr>) (filter isIdle rs0)"
    using q by (simp only: ss)
  from t' len each q' show ?thesis by blast
qed

theorem C6_service_pass_witness:
  "terrain serviceTile = Some exampleTerrain \<and>
   (\<exists>t' tr'. servicePendingRequests 7 serviceTile = Some t' \<and> terrain t' = Some tr' \<and>
      map stamp (requests t') = [7, 7, 1] \<and>
      map stamp (serviceQueue tr') = [7] \<and>
      map req_kind (serviceQueue tr') = [TileElevationLayerRequest])"
proof -
  have h: "terrain serviceTile = Some exampleTerrain"
    by (simp add: serviceTile_def exampleTile_def)
  let ?rs0 = "if requestsInstalled serviceTile then requests serviceTile
              else requests (installRequests 7 exampleTerrain serviceTile)"
  have rs0: "?rs0 = requests serviceTile" by (simp add: serviceTile_def)
  from C6_service_pass [OF h, of 7]
  obtain t' tr' where t': "servicePendingRequests 7 serviceTile = Some t'"
    "terrain t' = Some tr'"
    and len: "length (requests t') = length ?rs0"
    and each: "\<forall>i<length ?rs0.
         (isIdle (?rs0 ! i) \<longrightarrow> requests t' ! i = (?rs0 ! i)\<lparr>stamp := 7\<rparr>) \<and>
         (\<not> isIdle (?rs0 ! i) \<and> \<not> isCompleted (?rs0 ! i) \<longrightarrow>
            requests t' ! i = (?rs0 ! i)\<lparr>stamp := 7\<rparr>) \<and>
         (isCompleted (?rs0 ! i) \<longrightarrow> requests t' ! i = ?rs0 ! i)"
    and q: "serviceQueue tr' =
            serviceQueue exampleTerrain @ map (\<lambda>r. r\<lparr>stamp := 7\<rparr>) (filter isIdle ?rs0)"
    by blast
  have l3: "length (requests t') = 3" using len by (simp add: serviceTile_def)
  have e0: "stamp (requests t' ! 0) = 7"
    using each [unfolded rs0, rule_format, of 0] by (simp add: serviceTile_def example_defs)
  have e1: "stamp (requests t' ! 1) = 7"
    using each [unfolded rs0, rule_format, of 1] by (simp add: serviceTile_def example_defs)
  have e2: "stamp (requests t' ! 2) = 1"
    using each [unfolded rs0, rule_format, of 2] by (simp add: serviceTile_def example_defs)
  have st: "map stamp (requests t') = [7, 7, 1]"
  proof (rule nth_equalityI)
    show "length (map stamp (requests t')) = length [7, 7, 1 :: c_int]" using l3 by simp
  next
    fix i assume "i < length (map stamp (requests t'))"
    then have "i = 0 \<or> i = 1 \<or> i = 2" using l3 by auto
    then show "map stamp (requests t') ! i = [7, 7, 1] ! i"
      using e0 e1 e2 l3 by auto
  qed
  have q1: "map stamp (serviceQueue tr') = [7]"
    unfolding q by (simp add: serviceTile_def example_defs serviceQueue_def)
  have q2: "map req_kind (serviceQueue tr') = [TileElevationLayerRequest]"
    unfolding q by (simp add: serviceTile_def example_defs serviceQueue_def)
  from t' st q1 q2 have
    "\<exists>t' tr'. servicePendingRequests 7 serviceTile = Some t' \<and> terrain t' = Some tr' \<and>
      map stamp (requests t') = [7, 7, 1] \<and>
      map stamp (serviceQueue tr') = [7] \<and>
      map req_kind (serviceQueue tr') = [TileElevationLayerRequest]"
    by (intro exI [of _ t'] exI [of _ tr']) simp
  with h show ?thesis by (rule conjI)
qed

section \<open>The update pass (claim C7)\<close>

lemma serviceCompletedRequests_fixed:
  assumes "serviceCompletedRequests t = Some t'"
  shows "geometryRevision t' = geometryRevision t"
    and "terrainRevision t' = terrainRevision t"
    and "requestsInstalled t' = requestsInstalled t"
    and "useLayerRequests t' = useLayerRequests t"
    and "usePerLayerUpdates t' = usePerLayerUpdates t"
  by (subst serviceCompletedRequests_result(2) [OF assms],
      simp add: fold_installResult_fixed)+

lemma baseTraverse_fixed:
  "geometryRevision (baseTraverse osg nv t) = geometryRevision t"
  "terrainRevision (baseTraverse osg nv t) = terrainRevision t"
  "requestsInstalled (baseTraverse osg nv t) = requestsInstalled t"
  "elevationLayerDirty (baseTraverse osg nv t) = elevationLayerDirty t"
  "colorLayersDirty (baseTraverse osg nv t) = colorLayersDirty t"
  "requests (baseTraverse osg nv t) = requests t"
  by (simp_all add: baseTraverse_def Let_def)

lemma traverseAfter_fixed:
  "terrainRevision (traverseAfter b t) = terrainRevision t"
  "requestsInstalled (traverseAfter b t) = requestsInstalled t"
  "requests (traverseAfter b t) = requests t"
  by (simp_all add: traverseAfter_def Let_def)

lemma traverse_not_servicing:
  "\<not> (useLayerRequests t \<and> nv = UPDATE_VISITOR) \<Longrightarrow>
   traverse osg nv t = Some (baseTraverse osg nv t, [])"
  by (auto simp: traverse_def traverseBefore_def traverseAfter_def Let_def)

lemma traverse_servicing:
  assumes "useLayerRequests t" and "serviceCompletedRequests t = Some t1"
  shows "traverse osg UPDATE_VISITOR t =
         Some (traverseAfter True
                 (baseTraverse osg UPDATE_VISITOR
                    (if dirty t1 then t1\<lparr>elevationLayerDirty := True, colorLayersDirty := True\<rparr>
                     else t1)),
               if dirty t1 then []
               else if elevationLayerDirty t1 \<or> colorLayersDirty t1
                    then [(elevationLayerDirty t1, colorLayersDirty t1)] else [])"
  using assms by (simp add: traverse_def traverseBefore_def)

lemma traverse_servicing_None:
  assumes "useLayerRequests t" and "serviceCompletedRequests t = None"
  shows "traverse osg UPDATE_VISITOR t = None"
  using assms by (simp add: traverse_def traverseBefore_def)

lemma traverse_requests:
  assumes "traverse osg nv t = Some (t', calls)"
  shows "requestsInstalled t' = requestsInstalled t \<and> terrainRevision t' = terrainRevision t \<and>
         (requests t' = requests t \<or>
          requests t' = map resetCanceled (filter (\<lambda>r. \<not> isCompleted r) (requests t)))"
proof (cases "useLayerRequests t \<and> nv = UPDATE_VISITOR")
  case False
  with assms have "t' = baseTraverse osg nv t" by (simp add: traverse_not_servicing)
  then show ?thesis by (simp add: baseTraverse_fixed)
next
  case True
  then have u: "useLayerRequests t" and nv: "nv = UPDATE_VISITOR" by simp_all
  show ?thesis
  proof (cases "serviceCompletedRequests t")
    case None
    with assms u nv show ?thesis by (simp add: traverse_servicing_None)
  next
    case (Some t1)
    from assms nv have "t' = traverseAfter True
                 (baseTraverse osg UPDATE_VISITOR
                    (if dirty t1 then t1\<lparr>elevationLayerDirty := True, colorLayersDirty := True\<rparr>
                     else t1))"
      by (simp add: traverse_servicing [OF u Some])
    then have "requestsInstalled t' = requestsInstalled t1"
      "terrainRevision t' = terrainRevision t1" "requests t' = requests t1"
      by (simp_all add: traverseAfter_fixed baseTraverse_fixed)
    then show ?thesis
      using serviceCompletedRequests_fixed [OF Some] serviceCompletedRequests_result(1) [OF Some]
      by simp
  qed
qed

lemma sint_increment:
  fixes x :: c_int
  assumes "sint x < 2147483647"
  shows "sint (x + 1) = sint x + 1"
proof -
  have lo: "- (2 ^ 31) \<le> sint x" using sint_ge [of x] by simp
  have "sint (x + 1) = signed_take_bit 31 (sint x + 1)"
    by (simp add: sint_word_ariths)
  also have "\<dots> = sint x + 1"
    using assms lo by (intro signed_take_bit_int_eq_self) simp_all
  finally show ?thesis .
qed

text \<open>
  At the end of the range the counter wraps around: the increment of \<open>2^31 - 1\<close> is
  \<open>- 2^31\<close>.
\<close>

lemma geometryRevision_wraps:
  "sint (geometryRevision (traverseAfter True
      (t\<lparr>geometryRevision := 2147483647, elevationLayerDirty := True\<rparr>))) = - 2147483648"
  by (simp add: traverseAfter_def)

text \<open>
  Claim C7. An update pass over a tile that services its requests (and has a terrain, or
  no cancelled request, so that the harvest returns) first harvests: \<open>t1\<close> is the tile
  after the harvest. If the whole tile is dirty then, both per-layer flags are set and
  \<^verbatim>\<open>updateContent\<close> is not called. Otherwise, if one of the two flags is set,
  \<^verbatim>\<open>updateContent\<close> is called once, with the two flags as its arguments, and if none
  is set it is not called. After the base traversal the geometry revision has been
  incremented once (\<^verbatim>\<open>_geometryRevision++\<close>) if the elevation flag was set and is
  unchanged if not; below the largest \<^verbatim>\<open>int\<close> the increment makes the number grow
  by exactly 1. Both flags are clear at the end.
\<close>

theorem C7_update_pass:
  assumes "useLayerRequests t"
    and "terrain t \<noteq> None \<or> (\<forall>r\<in>set (requests t). \<not> isCanceled r)"
  shows "\<exists>t1 t2 calls t'.
      serviceCompletedRequests t = Some t1 \<and>
      traverseBefore True t = Some (t2, calls) \<and>
      traverse osg UPDATE_VISITOR t = Some (t', calls) \<and>
      t' = traverseAfter True (baseTraverse osg UPDATE_VISITOR t2) \<and>
      (dirty t1 \<longrightarrow> elevationLayerDirty t2 \<and> colorLayersDirty t2 \<and> calls = []) \<and>
      (\<not> dirty t1 \<longrightarrow>
         t2 = t1 \<and>
         calls = (if elevationLayerDirty t1 \<or> colorLayersDirty t1
                  then [(elevationLayerDirty t1, colorLayersDirty t1)] else [])) \<and>
      geometryRevision t' = geometryRevision t + (if elevationLayerDirty t2 then 1 else 0) \<and>
      (sint (geometryRevision t) < 2147483647 \<longrightarrow>
         sint (geometryRevision t') =
           sint (geometryRevision t) + (if elevationLayerDirty t2 then 1 else 0)) \<and>
      \<not> elevationLayerDirty t' \<and> \<not> colorLayersDirty t'"
proof -
  from serviceCompletedRequests_total [OF assms(2)]
  obtain t1 where t1: "serviceCompletedRequests t = Some t1" by blast
  define t2 where
    "t2 = (if dirty t1 then t1\<lparr>elevationLayerDirty := True, colorLayersDirty := True\<rparr> else t1)"
  define calls where
    "calls = (if dirty t1 then []
              else if elevationLayerDirty t1 \<or> colorLayersDirty t1
                   then [(elevationLayerDirty t1, colorLayersDirty t1)] else [])"
  define t' where "t' = traverseAfter True (baseTraverse osg UPDATE_VISITOR t2)"
  have before: "traverseBefore True t = Some (t2, calls)"
    using t1 by (simp add: traverseBefore_def t2_def calls_def)
  have trav: "traverse osg UPDATE_VISITOR t = Some (t', calls)"
    using traverse_servicing [OF assms(1) t1, of osg] by (simp add: t'_def t2_def calls_def)
  have d: "dirty t1 \<longrightarrow> elevationLayerDirty t2 \<and> colorLayersDirty t2 \<and> calls = []"
    by (simp add: t2_def calls_def)
  have nd: "\<not> dirty t1 \<longrightarrow>
         t2 = t1 \<and>
         calls = (if elevationLayerDirty t1 \<or> colorLayersDirty t1
                  then [(elevationLayerDirty t1, colorLayersDirty t1)] else [])"
    by (simp add: t2_def calls_def)
  have g2: "geometryRevision t2 = geometryRevision t"
    using serviceCompletedRequests_fixed(1) [OF t1] by (simp add: t2_def)
  have g: "geometryRevision t' = geometryRevision t + (if elevationLayerDirty t2 then 1 else 0)"
    using g2 by (simp add: t'_def traverseAfter_def baseTraverse_fixed)
  have gs: "sint (geometryRevision t) < 2147483647 \<longrightarrow>
         sint (geometryRevision t') =
           sint (geometryRevision t) + (if elevationLayerDirty t2 then 1 else 0)"
    using sint_increment [of "geometryRevision t"] by (simp add: g)
  have f: "\<not> elevationLayerDirty t'" "\<not> colorLayersDirty t'"
    by (simp_all add: t'_def traverseAfter_def)
  have tp: "t' = traverseAfter True (baseTraverse osg UPDATE_VISITOR t2)"
    by (simp add: t'_def)
  from t1 before trav tp d nd g gs f(1) f(2) show ?thesis
    by (intro exI [of _ t1] exI [of _ t2] exI [of _ calls] exI [of _ t'] conjI)
qed

lemma harvestTile_harvested:
  assumes "serviceCompletedRequests harvestTile = Some t1"
  shows "\<not> dirty t1" and "elevationLayerDirty t1" and "\<not> colorLayersDirty t1"
proof -
  let ?u = "fold installResult (filter isCompleted (requests harvestTile)) harvestTile"
  note res = serviceCompletedRequests_result(2) [OF assms]
  have eq: "dirty t1 = dirty ?u" "elevationLayerDirty t1 = elevationLayerDirty ?u"
    "colorLayersDirty t1 = colorLayersDirty ?u"
    by (subst res, simp)+
  have "\<not> dirty ?u"
    unfolding fold_installResult_dirty by (simp add: example_defs)
  then show "\<not> dirty t1" by (simp add: eq)
  have "elevationLayerDirty ?u"
    unfolding fold_installResult_elevationLayerDirty by (simp add: example_defs)
  then show "elevationLayerDirty t1" by (simp add: eq)
  have "\<not> colorLayersDirty ?u"
    unfolding fold_installResult_colorLayersDirty by (simp add: example_defs)
  then show "\<not> colorLayersDirty t1" by (simp add: eq)
qed

lemma wholeTile_harvested:
  assumes "serviceCompletedRequests wholeTile = Some t1"
  shows "dirty t1"
proof -
  let ?u = "fold installResult (filter isCompleted (requests wholeTile)) wholeTile"
  note res = serviceCompletedRequests_result(2) [OF assms]
  have eq: "dirty t1 = dirty ?u" by (subst res, simp)
  have "dirty ?u"
    unfolding fold_installResult_dirty by (simp add: example_defs)
  then show "dirty t1" by (simp add: eq)
qed

theorem C7_update_pass_witness:
  "useLayerRequests harvestTile \<and> terrain harvestTile \<noteq> None \<and>
   sint (geometryRevision harvestTile) < 2147483647 \<and>
   (\<exists>t'. traverse exampleTraverse UPDATE_VISITOR harvestTile = Some (t', [(True, False)]) \<and>
         geometryRevision t' = 1 \<and> sint (geometryRevision t') = 1 \<and>
         \<not> elevationLayerDirty t' \<and> \<not> colorLayersDirty t') \<and>
   useLayerRequests wholeTile \<and> terrain wholeTile \<noteq> None \<and>
   (\<exists>t'. traverse exampleTraverse UPDATE_VISITOR wholeTile = Some (t', []) \<and>
         geometryRevision t' = 1 \<and> \<not> elevationLayerDirty t' \<and> \<not> colorLayersDirty t')"
proof -
  have h1: "useLayerRequests harvestTile" by (simp add: example_defs)
  have h2: "terrain harvestTile \<noteq> None" by (simp add: example_defs)
  then have h2': "terrain harvestTile \<noteq> None \<or> (\<forall>r\<in>set (requests harvestTile). \<not> isCanceled r)"
    by simp
  have g0: "geometryRevision harvestTile = 0" by (simp add: example_defs)
  then have h3: "sint (geometryRevision harvestTile) < 2147483647" by simp
  from C7_update_pass [OF h1 h2', of exampleTraverse]
  obtain t1 t2 calls t' where
    t1: "serviceCompletedRequests harvestTile = Some t1"
    and trav: "traverse exampleTraverse UPDATE_VISITOR harvestTile = Some (t', calls)"
    and nd: "\<not> dirty t1 \<longrightarrow>
         t2 = t1 \<and>
         calls = (if elevationLayerDirty t1 \<or> colorLayersDirty t1
                  then [(elevationLayerDirty t1, colorLayersDirty t1)] else [])"
    and g: "geometryRevision t' =
            geometryRevision harvestTile + (if elevationLayerDirty t2 then 1 else 0)"
    and gs: "sint (geometryRevision harvestTile) < 2147483647 \<longrightarrow>
         sint (geometryRevision t') =
           sint (geometryRevision harvestTile) + (if elevationLayerDirty t2 then 1 else 0)"
    and f: "\<not> elevationLayerDirty t'" "\<not> colorLayersDirty t'"
    by (elim exE conjE)
  note fl = harvestTile_harvested [OF t1]
  from nd fl have t2: "t2 = t1" and calls: "calls = [(True, False)]" by simp_all
  from g t2 fl g0 have g1: "geometryRevision t' = 1" by simp
  from gs h3 have "sint (geometryRevision t') =
           sint (geometryRevision harvestTile) + (if elevationLayerDirty t2 then 1 else 0)"
    by (rule mp)
  with t2 fl g0 have gs1: "sint (geometryRevision t') = 1" by simp
  from trav calls g1 gs1 f have first:
    "\<exists>t'. traverse exampleTraverse UPDATE_VISITOR harvestTile = Some (t', [(True, False)]) \<and>
         geometryRevision t' = 1 \<and> sint (geometryRevision t') = 1 \<and>
         \<not> elevationLayerDirty t' \<and> \<not> colorLayersDirty t'"
    by (intro exI [of _ t']) simp
  have k1: "useLayerRequests wholeTile" by (simp add: example_defs)
  have k2: "terrain wholeTile \<noteq> None" by (simp add: example_defs)
  then have k2': "terrain wholeTile \<noteq> None \<or> (\<forall>r\<in>set (requests wholeTile). \<not> isCanceled r)"
    by simp
  have w0: "geometryRevision wholeTile = 0" by (simp add: example_defs)
  from C7_update_pass [OF k1 k2', of exampleTraverse]
  obtain u1 and u2 :: VersionedTile and ucalls u' where
    u1: "serviceCompletedRequests wholeTile = Some u1"
    and utrav: "traverse exampleTraverse UPDATE_VISITOR wholeTile = Some (u', ucalls)"
    and ud: "dirty u1 \<longrightarrow> elevationLayerDirty u2 \<and> colorLayersDirty u2 \<and> ucalls = []"
    and ug: "geometryRevision u' =
            geometryRevision wholeTile + (if elevationLayerDirty u2 then 1 else 0)"
    and uf: "\<not> elevationLayerDirty u'" "\<not> colorLayersDirty u'"
    by (elim exE conjE)
  from ud wholeTile_harvested [OF u1]
  have e2: "elevationLayerDirty u2" and ucalls: "ucalls = []" by simp_all
  from ug e2 w0 have ug1: "geometryRevision u' = 1" by simp
  from utrav ucalls ug1 uf have second:
    "\<exists>t'. traverse exampleTraverse UPDATE_VISITOR wholeTile = Some (t', []) \<and>
         geometryRevision t' = 1 \<and> \<not> elevationLayerDirty t' \<and> \<not> colorLayersDirty t'"
    by (intro exI [of _ u']) simp
  from h1 h2 h3 first k1 k2 second show ?thesis by (intro conjI)
qed

section \<open>A tile out of sync with its terrain (claim C3)\<close>

text \<open>
  Claim C3 as stated fails. The tile \<open>staleTile\<close> stores revision 0, its terrain is at
  revision 1, and \<^verbatim>\<open>isInSyncWithTerrain\<close> says so; but an update pass returns the very
  same tile and calls nothing, and so does a servicing pass: the requests stay
  installed, none is created, the cached elevation layer stays.
\<close>

theorem C3_stale_tile_counterexample:
  "isInSyncWithTerrain staleTile = Some False \<and>
   traverse exampleTraverse UPDATE_VISITOR staleTile = Some (staleTile, []) \<and>
   servicePendingRequests 1 staleTile = Some staleTile"
  by (simp add: staleTile_def example_defs isInSyncWithTerrain_def getRevision_def
      incrementRevision_def traverse_def traverseBefore_def traverseAfter_def
      baseTraverse_def exampleTraverse_def serviceCompletedRequests_def
      servicePendingRequests_def TerrainTile.defs Let_def)

text \<open>
  Claim C3, amended. \<^verbatim>\<open>isInSyncWithTerrain\<close> answers false exactly when the stored
  revision differs from the current revision of the terrain. Neither the update pass
  nor the servicing pass looks at the revisions: a traversal that returns leaves the
  stored revision and \<^verbatim>\<open>requestsInstalled\<close> as they were and adds no request for any
  layer, and a servicing pass on a tile whose requests are installed leaves the stored
  revision, the flag, the layers of the requests and the cached layers as they were.
\<close>

theorem C3_revision_check_only_reports:
  "(terrain t = Some tr \<longrightarrow>
      isInSyncWithTerrain t = Some (terrainRevision t = revision tr)) \<and>
   (traverse osg nv t = Some (t', calls) \<longrightarrow>
      terrainRevision t' = terrainRevision t \<and>
      requestsInstalled t' = requestsInstalled t \<and>
      set (map req_kind (requests t')) \<subseteq> set (map req_kind (requests t))) \<and>
   (requestsInstalled t \<and> terrain t = Some tr \<longrightarrow>
      (\<exists>t''. servicePendingRequests st t = Some t'' \<and>
             terrainRevision t'' = terrainRevision t \<and> requestsInstalled t'' \<and>
             map req_kind (requests t'') = map req_kind (requests t) \<and>
             elevationLayer t'' = elevationLayer t \<and> colorLayers t'' = colorLayers t))"
proof (intro conjI impI)
  assume "terrain t = Some tr"
  then show "isInSyncWithTerrain t = Some (terrainRevision t = revision tr)"
    by (simp add: isInSyncWithTerrain_def getRevision_def)
next
  assume tr: "traverse osg nv t = Some (t', calls)"
  from traverse_requests [OF tr]
  show "terrainRevision t' = terrainRevision t" and "requestsInstalled t' = requestsInstalled t"
    by simp_all
  from traverse_requests [OF tr]
  have "requests t' = requests t \<or>
        requests t' = map resetCanceled (filter (\<lambda>r. \<not> isCompleted r) (requests t))"
    by simp
  then show "set (map req_kind (requests t')) \<subseteq> set (map req_kind (requests t))"
  proof
    assume "requests t' = requests t"
    then show ?thesis by simp
  next
    assume "requests t' = map resetCanceled (filter (\<lambda>r. \<not> isCompleted r) (requests t))"
    then have "map req_kind (requests t') =
               map req_kind (filter (\<lambda>r. \<not> isCompleted r) (requests t))"
      by (simp add: comp_def resetCanceled_kind)
    then show ?thesis by auto
  qed
next
  assume a: "requestsInstalled t \<and> terrain t = Some tr"
  then have i: "requestsInstalled t" and t: "terrain t = Some tr" by simp_all
  from servicePendingRequests_attached [OF t, of st] i
  obtain t'' where "servicePendingRequests st t = Some t''" "requestsInstalled t''"
    "requests t'' = map (serviceOne st) (requests t)"
    "terrainRevision t'' = terrainRevision t" "elevationLayer t'' = elevationLayer t"
    "colorLayers t'' = colorLayers t"
    by auto
  then show "\<exists>t''. servicePendingRequests st t = Some t'' \<and>
             terrainRevision t'' = terrainRevision t \<and> requestsInstalled t'' \<and>
             map req_kind (requests t'') = map req_kind (requests t) \<and>
             elevationLayer t'' = elevationLayer t \<and> colorLayers t'' = colorLayers t"
    by (intro exI [of _ t'']) (simp add: comp_def serviceOne_kind)
qed

theorem C3_revision_check_witness:
  "terrain staleTile = Some (incrementRevision exampleTerrain) \<and>
   requestsInstalled staleTile \<and>
   isInSyncWithTerrain staleTile = Some False \<and>
   (\<exists>t' calls. traverse exampleTraverse UPDATE_VISITOR staleTile = Some (t', calls) \<and>
          terrainRevision t' = 0 \<and> requestsInstalled t') \<and>
   (\<exists>t''. servicePendingRequests 1 staleTile = Some t'' \<and>
          terrainRevision t'' = 0 \<and> requestsInstalled t'' \<and>
          elevationLayer t'' = Some (Layer 0))"
proof -
  have h: "terrain staleTile = Some (incrementRevision exampleTerrain)"
    and i: "requestsInstalled staleTile"
    by (simp_all add: staleTile_def)
  have r0: "terrainRevision staleTile = 0" by (simp add: staleTile_def)
  have tv: "traverse exampleTraverse UPDATE_VISITOR staleTile = Some (staleTile, [])"
    by (simp add: staleTile_def example_defs incrementRevision_def traverse_def
        traverseBefore_def traverseAfter_def baseTraverse_def exampleTraverse_def
        serviceCompletedRequests_def TerrainTile.defs Let_def)
  note inst = C3_revision_check_only_reports
    [of staleTile "incrementRevision exampleTerrain" exampleTraverse UPDATE_VISITOR
        staleTile "[]" 1]
  from inst h have "isInSyncWithTerrain staleTile =
        Some (terrainRevision staleTile = revision (incrementRevision exampleTerrain))"
    by blast
  then have s: "isInSyncWithTerrain staleTile = Some False"
    by (simp add: staleTile_def example_defs incrementRevision_def)
  from inst tv have "terrainRevision staleTile = terrainRevision staleTile \<and>
      requestsInstalled staleTile = requestsInstalled staleTile \<and>
      set (map req_kind (requests staleTile)) \<subseteq> set (map req_kind (requests staleTile))"
    by blast
  with tv r0 i have t: "\<exists>t' calls. traverse exampleTraverse UPDATE_VISITOR staleTile =
          Some (t', calls) \<and> terrainRevision t' = 0 \<and> requestsInstalled t'"
    by (intro exI [of _ staleTile] exI [of _ "[]"]) simp
  from inst h i obtain t'' where "servicePendingRequests 1 staleTile = Some t''"
    "terrainRevision t'' = terrainRevision staleTile" "requestsInstalled t''"
    "elevationLayer t'' = elevationLayer staleTile"
    by blast
  then have p: "\<exists>t''. servicePendingRequests 1 staleTile = Some t'' \<and>
          terrainRevision t'' = 0 \<and> requestsInstalled t'' \<and>
          elevationLayer t'' = Some (Layer 0)"
    by (intro exI [of _ t'']) (simp add: staleTile_def example_defs)
  from h i s t p show ?thesis by (intro conjI)
qed

section \<open>One task service per terrain (claim C8)\<close>

lemma runTerrain_existing:
  "taskService tr = Some s0 \<Longrightarrow> runTerrain ops tr = (ss, tr') \<Longrightarrow>
   servicesConstructed tr' = servicesConstructed tr \<and>
   (\<forall>s\<in>set ss. serial s = serial s0 \<and> numThreads s = numThreads s0) \<and>
   (\<exists>s1. taskService tr' = Some s1 \<and> serial s1 = serial s0 \<and> numThreads s1 = numThreads s0)"
proof (induction ops arbitrary: tr s0 ss)
  case Nil
  then show ?case by simp
next
  case (Cons op ops)
  show ?case
  proof (cases op)
    case GetOrCreateTaskService
    from Cons.prems(1) have g: "getOrCreateTaskService tr = (s0, tr)"
      by (rule getOrCreateTaskService_existing)
    obtain ss1 where r: "runTerrain ops tr = (ss1, tr')" and ss: "ss = s0 # ss1"
      using Cons.prems(2) GetOrCreateTaskService g
      by (cases "runTerrain ops tr") (simp add: Let_def)
    from Cons.IH [OF Cons.prems(1) r] ss show ?thesis by simp
  next
    case IncrementRevision
    with Cons.prems(2) have r: "runTerrain ops (incrementRevision tr) = (ss, tr')" by simp
    have "taskService (incrementRevision tr) = Some s0"
      using Cons.prems(1) by (simp add: incrementRevision_def)
    from Cons.IH [OF this r] show ?thesis by (simp add: incrementRevision_def)
  next
    case (SetNumTaskServiceThreads n)
    with Cons.prems(2) have r: "runTerrain ops (setNumTaskServiceThreads n tr) = (ss, tr')"
      by simp
    have "taskService (setNumTaskServiceThreads n tr) = Some s0"
      using Cons.prems(1) by (simp add: setNumTaskServiceThreads_def)
    from Cons.IH [OF this r] show ?thesis by (simp add: setNumTaskServiceThreads_def)
  next
    case (ServiceActivity st q)
    let ?tr1 = "tr\<lparr>taskService := Some (s0\<lparr>serviceStamp := st, queue := q\<rparr>)\<rparr>"
    from Cons.prems ServiceActivity have r: "runTerrain ops ?tr1 = (ss, tr')" by simp
    have "taskService ?tr1 = Some (s0\<lparr>serviceStamp := st, queue := q\<rparr>)" by simp
    from Cons.IH [OF this r] show ?thesis by simp
  qed
qed

lemma runTerrain_fresh:
  "taskService tr = None \<Longrightarrow> runTerrain ops tr = (ss, tr') \<Longrightarrow>
   servicesConstructed tr' =
     servicesConstructed tr + (if GetOrCreateTaskService \<in> set ops then 1 else 0) \<and>
   (\<forall>s\<in>set ss. serial s = servicesConstructed tr) \<and>
   (\<exists>n. \<forall>s\<in>set ss. numThreads s = n)"
proof (induction ops arbitrary: tr ss)
  case Nil
  then show ?case by simp
next
  case (Cons op ops)
  show ?case
  proof (cases op)
    case GetOrCreateTaskService
    let ?s0 = "\<lparr>serial = servicesConstructed tr, numThreads = numTaskServiceThreads tr,
                serviceStamp = 0, queue = []\<rparr>"
    let ?tr1 = "tr\<lparr>taskService := Some ?s0,
                   servicesConstructed := servicesConstructed tr + 1\<rparr>"
    from Cons.prems(1) have g: "getOrCreateTaskService tr = (?s0, ?tr1)"
      by (rule getOrCreateTaskService_new)
    obtain ss1 where r: "runTerrain ops ?tr1 = (ss1, tr')" and ss: "ss = ?s0 # ss1"
      using Cons.prems(2) GetOrCreateTaskService g
      by (cases "runTerrain ops ?tr1") (simp add: Let_def)
    have "taskService ?tr1 = Some ?s0" by simp
    from runTerrain_existing [OF this r]
    have c: "servicesConstructed tr' = servicesConstructed tr + 1"
      and a: "\<forall>s\<in>set ss1. serial s = servicesConstructed tr \<and>
                            numThreads s = numTaskServiceThreads tr"
      by simp_all
    from a ss have "\<forall>s\<in>set ss. numThreads s = numTaskServiceThreads tr" by simp
    then have "\<exists>n. \<forall>s\<in>set ss. numThreads s = n" by blast
    moreover from a ss have "\<forall>s\<in>set ss. serial s = servicesConstructed tr" by simp
    ultimately show ?thesis using c GetOrCreateTaskService by simp
  next
    case IncrementRevision
    with Cons.prems(2) have r: "runTerrain ops (incrementRevision tr) = (ss, tr')" by simp
    have "taskService (incrementRevision tr) = None"
      using Cons.prems(1) by (simp add: incrementRevision_def)
    from Cons.IH [OF this r] IncrementRevision show ?thesis
      by (simp add: incrementRevision_def)
  next
    case (SetNumTaskServiceThreads n)
    with Cons.prems(2) have r: "runTerrain ops (setNumTaskServiceThreads n tr) = (ss, tr')"
      by simp
    have "taskService (setNumTaskServiceThreads n tr) = None"
      using Cons.prems(1) by (simp add: setNumTaskServiceThreads_def)
    from Cons.IH [OF this r] SetNumTaskServiceThreads show ?thesis
      by (simp add: setNumTaskServiceThreads_def)
  next
    case (ServiceActivity st q)
    have "tr\<lparr>taskService := None\<rparr> = tr"
      using Cons.prems(1) by (cases tr) simp
    with Cons.prems ServiceActivity have r: "runTerrain ops tr = (ss, tr')" by simp
    from Cons.IH [OF Cons.prems(1) r] ServiceActivity show ?thesis by simp
  qed
qed

text \<open>
  Claim C8, for calls made one after the other. A new terrain has no task service.
  Whatever is done to the terrain afterwards, it constructs a task service only in
  \<^verbatim>\<open>getOrCreateTaskService\<close>, at most once, and exactly once if the function is called
  at all; every call returns the object numbered 0, with the thread count it was
  constructed with. A second call right after a first one returns the same service and
  leaves the terrain as it is; a call constructs a service exactly when there is none.
\<close>

theorem C8_task_service_constructed_once:
  "taskService (VersionedTerrain f env) = None \<and>
   (\<forall>ss tr'. runTerrain ops (VersionedTerrain f env) = (ss, tr') \<longrightarrow>
      servicesConstructed tr' = (if GetOrCreateTaskService \<in> set ops then 1 else 0) \<and>
      (\<forall>s\<in>set ss. serial s = 0) \<and>
      (\<forall>s\<in>set ss. \<forall>s'\<in>set ss. numThreads s = numThreads s')) \<and>
   getOrCreateTaskService (snd (getOrCreateTaskService tr)) =
     (fst (getOrCreateTaskService tr), snd (getOrCreateTaskService tr)) \<and>
   servicesConstructed (snd (getOrCreateTaskService tr)) =
     servicesConstructed tr + (if taskService tr = None then 1 else 0)"
proof (intro conjI allI impI)
  show n: "taskService (VersionedTerrain f env) = None"
    by (simp add: VersionedTerrain_def)
  have z: "servicesConstructed (VersionedTerrain f env) = 0"
    by (simp add: VersionedTerrain_def)
  fix ss tr'
  assume r: "runTerrain ops (VersionedTerrain f env) = (ss, tr')"
  from runTerrain_fresh [OF n r] z
  show "servicesConstructed tr' = (if GetOrCreateTaskService \<in> set ops then 1 else 0)"
    and "\<forall>s\<in>set ss. serial s = 0"
    by simp_all
  from runTerrain_fresh [OF n r]
  obtain m where "\<forall>s\<in>set ss. numThreads s = m" by blast
  then show "\<forall>s\<in>set ss. \<forall>s'\<in>set ss. numThreads s = numThreads s'" by simp
next
  show "getOrCreateTaskService (snd (getOrCreateTaskService tr)) =
     (fst (getOrCreateTaskService tr), snd (getOrCreateTaskService tr))"
    using getOrCreateTaskService_existing [OF getOrCreateTaskService_valid] .
next
  show "servicesConstructed (snd (getOrCreateTaskService tr)) =
     servicesConstructed tr + (if taskService tr = None then 1 else 0)"
    by (cases "taskService tr") (simp_all add: getOrCreateTaskService_def TaskService_def Let_def)
qed

theorem C8_task_service_witness:
  "runTerrain [GetOrCreateTaskService, SetNumTaskServiceThreads 2, GetOrCreateTaskService]
     exampleTerrain =
   ([\<lparr>serial = 0, numThreads = 8, serviceStamp = 0, queue = []\<rparr>,
     \<lparr>serial = 0, numThreads = 8, serviceStamp = 0, queue = []\<rparr>],
    exampleTerrain
      \<lparr>numTaskServiceThreads := 2,
       taskService := Some \<lparr>serial = 0, numThreads = 8, serviceStamp = 0, queue = []\<rparr>,
       servicesConstructed := 1\<rparr>) \<and>
   servicesConstructed
     (exampleTerrain
        \<lparr>numTaskServiceThreads := 2,
         taskService := Some \<lparr>serial = 0, numThreads = 8, serviceStamp = 0, queue = []\<rparr>,
         servicesConstructed := 1\<rparr>) = 1"
proof -
  let ?ops = "[GetOrCreateTaskService, SetNumTaskServiceThreads 2, GetOrCreateTaskService]"
  let ?s = "\<lparr>serial = 0, numThreads = 8 :: 32 word, serviceStamp = 0 :: c_int,
             queue = [] :: TaskRequest list\<rparr>"
  let ?tr' = "exampleTerrain
      \<lparr>numTaskServiceThreads := 2, taskService := Some ?s, servicesConstructed := 1\<rparr>"
  have r: "runTerrain ?ops (VersionedTerrain (Some (TileLayerFactory 0)) None) = ([?s, ?s], ?tr')"
    by (simp add: exampleTerrain_def VersionedTerrain_def getOrCreateTaskService_def
        TaskService_def setNumTaskServiceThreads_def Let_def)
  from C8_task_service_constructed_once [of "Some (TileLayerFactory 0)" None ?ops exampleTerrain] r
  have "servicesConstructed ?tr' = (if GetOrCreateTaskService \<in> set ?ops then 1 else 0)"
    by blast
  then have "servicesConstructed ?tr' = 1" by simp
  with r show ?thesis by (simp add: exampleTerrain_def)
qed

section \<open>At most one request per layer (claims C1 and C10)\<close>

lemma servicePendingRequests_kinds:
  assumes "servicePendingRequests st t = Some t'"
  shows "requestsInstalled t'"
    and "map req_kind (requests t') =
         map req_kind (requests t) @
         (if requestsInstalled t then []
          else (case terrain t of
                  None \<Rightarrow> []
                | Some tr \<Rightarrow> (case layerFactory tr of None \<Rightarrow> [] | Some f \<Rightarrow> installedKinds t)))"
proof -
  have "requestsInstalled t' \<and>
        map req_kind (requests t') =
         map req_kind (requests t) @
         (if requestsInstalled t then []
          else (case terrain t of
                  None \<Rightarrow> []
                | Some tr \<Rightarrow> (case layerFactory tr of None \<Rightarrow> [] | Some f \<Rightarrow> installedKinds t)))"
  proof (cases "requestsInstalled t")
    case True
    with assms show ?thesis
      by (auto simp: servicePendingRequests_installed servicePendingLoop_kinds)
  next
    case False
    show ?thesis
    proof (cases "terrain t")
      case None
      with False assms show ?thesis by (simp add: servicePendingRequests_detached)
    next
      case (Some tr)
      from assms show ?thesis
        unfolding servicePendingRequests_first [OF False Some]
        using False Some
        by (auto simp: servicePendingLoop_kinds installRequests_kinds installRequests_installed)
    qed
  qed
  then show "requestsInstalled t'"
    and "map req_kind (requests t') =
         map req_kind (requests t) @
         (if requestsInstalled t then []
          else (case terrain t of
                  None \<Rightarrow> []
                | Some tr \<Rightarrow> (case layerFactory tr of None \<Rightarrow> [] | Some f \<Rightarrow> installedKinds t)))"
    by simp_all
qed

lemma workerUpdate_kinds:
  "map req_kind (requests (workerUpdate i s res cb t)) = map req_kind (requests t)"
  "requestsInstalled (workerUpdate i s res cb t) = requestsInstalled t"
  by (simp_all add: workerUpdate_def map_update list_update_same_conv)

lemma step_kinds:
  assumes "step osg e t = Some t'"
  shows "(requestsInstalled t \<longrightarrow> requestsInstalled t') \<and>
         (map req_kind (requests t') = map req_kind (requests t) \<or>
          map req_kind (requests t') =
            map req_kind (filter (\<lambda>r. \<not> isCompleted r) (requests t)) \<or>
          (\<not> requestsInstalled t \<and> requestsInstalled t' \<and>
           (map req_kind (requests t') = map req_kind (requests t) \<or>
            map req_kind (requests t') = map req_kind (requests t) @ installedKinds t)))"
proof (cases e)
  case (ServicePendingRequests st)
  with assms have sp: "servicePendingRequests st t = Some t'" by simp
  show ?thesis
    using servicePendingRequests_kinds [OF sp]
    by (auto split: option.splits if_splits)
next
  case ServiceCompletedRequests
  with assms have sc: "serviceCompletedRequests t = Some t'" by simp
  from serviceCompletedRequests_result(1) [OF sc] serviceCompletedRequests_fixed(3) [OF sc]
  show ?thesis by (simp add: comp_def resetCanceled_kind)
next
  case (Traverse nv)
  with assms obtain calls where "traverse osg nv t = Some (t', calls)" by auto
  from traverse_requests [OF this] show ?thesis
    by (auto simp: comp_def resetCanceled_kind)
next
  case (SetUseLayerRequests v)
  with assms show ?thesis by (auto simp: setUseLayerRequests_def)
next
  case (SetTerrainRevision v)
  with assms show ?thesis by (auto simp: setTerrainRevision_def)
next
  case IncrementTileRevision
  with assms show ?thesis by (auto simp: incrementTileRevision_def)
next
  case (SetHasElevationHint v)
  with assms show ?thesis by (auto simp: setHasElevationHint_def)
next
  case (SetTerrain vt)
  with assms show ?thesis by auto
next
  case (SetLayers d el cs)
  with assms show ?thesis by auto
next
  case (Worker i s res cb)
  with assms show ?thesis by (auto simp: workerUpdate_kinds)
qed

lemma step_inv:
  assumes "step osg e t = Some t'" and "tileInv t"
  shows "tileInv t'"
proof -
  from assms(2) have d: "distinct (map req_kind (requests t))"
    and e: "\<not> requestsInstalled t \<longrightarrow> requests t = []"
    by (simp_all add: tileInv_def)
  from step_kinds [OF assms(1)]
  consider "requestsInstalled t \<longrightarrow> requestsInstalled t'"
      "map req_kind (requests t') = map req_kind (requests t)"
    | "requestsInstalled t \<longrightarrow> requestsInstalled t'"
      "map req_kind (requests t') = map req_kind (filter (\<lambda>r. \<not> isCompleted r) (requests t))"
    | "\<not> requestsInstalled t" "requestsInstalled t'"
      "map req_kind (requests t') = map req_kind (requests t) \<or>
       map req_kind (requests t') = map req_kind (requests t) @ installedKinds t"
    by blast
  then show ?thesis
  proof cases
    case 1
    have "\<not> requestsInstalled t' \<longrightarrow> requests t' = []"
    proof
      assume "\<not> requestsInstalled t'"
      with 1(1) e have "requests t = []" by blast
      with 1(2) show "requests t' = []" by simp
    qed
    with d 1(2) show ?thesis by (simp add: tileInv_def)
  next
    case 2
    have "\<not> requestsInstalled t' \<longrightarrow> requests t' = []"
    proof
      assume "\<not> requestsInstalled t'"
      with 2(1) e have "requests t = []" by blast
      with 2(2) show "requests t' = []" by simp
    qed
    moreover have "distinct (map req_kind (requests t'))"
      unfolding 2(2) using d by (rule distinct_map_filter)
    ultimately show ?thesis by (simp add: tileInv_def)
  next
    case 3
    from 3(1) e have "requests t = []" by blast
    with 3(3) have "distinct (map req_kind (requests t'))"
      by (auto simp: installedKinds_distinct)
    with 3(2) show ?thesis by (simp add: tileInv_def)
  qed
qed

lemma run_inv:
  "run osg es t = Some t' \<Longrightarrow> tileInv t \<Longrightarrow> tileInv t'"
proof (induction es arbitrary: t)
  case Nil
  then show ?case by simp
next
  case (Cons e es)
  from Cons.prems(1) obtain t1 where s: "step osg e t = Some t1" and r: "run osg es t1 = Some t'"
    by (auto split: option.splits)
  from Cons.IH [OF r step_inv [OF s Cons.prems(2)]] show ?case .
qed

lemma step_installed_empty:
  assumes "step osg e t = Some t'" and "requestsInstalled t" and "requests t = []"
  shows "requestsInstalled t' \<and> requests t' = []"
  using step_kinds [OF assms(1)] assms(2,3) by auto

lemma run_installed_empty:
  "run osg es t = Some t' \<Longrightarrow> requestsInstalled t \<Longrightarrow> requests t = [] \<Longrightarrow>
   requestsInstalled t' \<and> requests t' = []"
proof (induction es arbitrary: t)
  case Nil
  then show ?case by simp
next
  case (Cons e es)
  from Cons.prems(1) obtain t1 where s: "step osg e t = Some t1" and r: "run osg es t1 = Some t'"
    by (auto split: option.splits)
  from step_installed_empty [OF s Cons.prems(2,3)]
  have "requestsInstalled t1" "requests t1 = []" by simp_all
  from Cons.IH [OF r this] show ?case .
qed

lemma run_service_again:
  "requestsInstalled t \<Longrightarrow>
   \<exists>t'. run osg (map ServicePendingRequests sts) t = Some t' \<and> requestsInstalled t' \<and>
        map req_kind (requests t') = map req_kind (requests t)"
proof (induction sts arbitrary: t)
  case Nil
  then show ?case by simp
next
  case (Cons st sts)
  from servicePendingRequests_installed [OF Cons.prems, of st]
  obtain t1 where s: "servicePendingRequests st t = Some t1" by blast
  from servicePendingRequests_kinds [OF s] Cons.prems
  have i: "requestsInstalled t1" and k: "map req_kind (requests t1) = map req_kind (requests t)"
    by simp_all
  from Cons.IH [OF i] obtain t' where
    "run osg (map ServicePendingRequests sts) t1 = Some t'" "requestsInstalled t'"
    "map req_kind (requests t') = map req_kind (requests t1)"
    by blast
  with s k show ?case by simp
qed

lemma distinct_map_count:
  "distinct (map f xs) \<Longrightarrow> length (filter (\<lambda>x. f x = k) xs) \<le> 1"
proof (induction xs)
  case Nil
  then show ?case by simp
next
  case (Cons x xs)
  show ?case
  proof (cases "f x = k")
    case True
    from Cons.prems have nx: "f x \<notin> set (map f xs)" by simp
    have "\<forall>y\<in>set xs. f y \<noteq> k"
    proof
      fix y assume "y \<in> set xs"
      then have "f y \<in> set (map f xs)" by simp
      with nx have "f y \<noteq> f x" by metis
      with True show "f y \<noteq> k" by simp
    qed
    then have "filter (\<lambda>x. f x = k) xs = []" by (simp add: filter_empty_conv)
    with True show ?thesis by simp
  next
    case False
    with Cons show ?thesis by simp
  qed
qed

lemma tileInv_new: "tileInv (VersionedTile k hint)"
  by (simp add: tileInv_def VersionedTile_def)

text \<open>
  Claim C1. In every state a tile reaches from its construction, by calls of its
  methods and by the writes of the worker threads, the scene and the terrain, no layer
  has two requests in the collection. In such a state before the installation, on a
  tile with a terrain, the first \<^verbatim>\<open>servicePendingRequests\<close> returns, sets
  \<^verbatim>\<open>requestsInstalled\<close> and leaves exactly one request for each layer that the
  installation serves: with a factory, the elevation layer when it is there and hinted,
  and every color layer index, in this order; without a factory, none. Once the
  requests are installed, any number of further calls return and leave the layers of the
  requests as they are.
\<close>

theorem C1_at_most_one_request_per_layer:
  "(run osg es (VersionedTile k hint) = Some t \<longrightarrow>
      distinct (map req_kind (requests t)) \<and>
      (\<forall>knd. length (filter (\<lambda>r. req_kind r = knd) (requests t)) \<le> 1) \<and>
      (\<not> requestsInstalled t \<and> terrain t = Some tr \<longrightarrow>
         (\<exists>t'. servicePendingRequests st t = Some t' \<and> requestsInstalled t' \<and>
               map req_kind (requests t') =
                 (case layerFactory tr of
                    None \<Rightarrow> []
                  | Some f \<Rightarrow>
                      (if elevationLayer t \<noteq> None \<and> requestElevation t
                       then [TileElevationLayerRequest] else []) @
                      map TileColorLayerRequest [0..<length (colorLayers t)])))) \<and>
   (requestsInstalled u \<longrightarrow>
      (\<exists>u'. run osg (map ServicePendingRequests sts) u = Some u' \<and> requestsInstalled u' \<and>
            map req_kind (requests u') = map req_kind (requests u)))"
proof (intro conjI impI)
  assume r: "run osg es (VersionedTile k hint) = Some t"
  from run_inv [OF r tileInv_new] have inv: "tileInv t" .
  then show d: "distinct (map req_kind (requests t))" by (simp add: tileInv_def)
  show "\<forall>knd. length (filter (\<lambda>r. req_kind r = knd) (requests t)) \<le> 1"
    using distinct_map_count [OF d] by blast
next
  assume r: "run osg es (VersionedTile k hint) = Some t"
    and a: "\<not> requestsInstalled t \<and> terrain t = Some tr"
  from run_inv [OF r tileInv_new] a have e: "requests t = []" by (simp add: tileInv_def)
  from a have tr: "terrain t = Some tr" and ni: "\<not> requestsInstalled t" by simp_all
  from servicePendingRequests_attached [OF tr, of st]
  obtain t' where s: "servicePendingRequests st t = Some t'" by blast
  from servicePendingRequests_kinds [OF s] ni tr e
  have "requestsInstalled t'"
    and "map req_kind (requests t') =
         (case layerFactory tr of None \<Rightarrow> [] | Some f \<Rightarrow> installedKinds t)"
    by simp_all
  with s show "\<exists>t'. servicePendingRequests st t = Some t' \<and> requestsInstalled t' \<and>
               map req_kind (requests t') =
                 (case layerFactory tr of
                    None \<Rightarrow> []
                  | Some f \<Rightarrow>
                      (if elevationLayer t \<noteq> None \<and> requestElevation t
                       then [TileElevationLayerRequest] else []) @
                      map TileColorLayerRequest [0..<length (colorLayers t)])"
    by (cases "layerFactory tr") (simp_all add: installedKinds_def getNumColorLayers_def)
next
  assume "requestsInstalled u"
  then show "\<exists>u'. run osg (map ServicePendingRequests sts) u = Some u' \<and>
               requestsInstalled u' \<and> map req_kind (requests u') = map req_kind (requests u)"
    by (rule run_service_again)
qed

theorem C1_at_most_one_request_witness:
  "run exampleTraverse
     [SetTerrain (Some exampleTerrain),
      SetLayers False (Some (Layer 0)) [Some (Layer 1), Some (Layer 2)],
      SetUseLayerRequests True]
     (VersionedTile exampleKey True) = Some exampleTile \<and>
   \<not> requestsInstalled exampleTile \<and> terrain exampleTile = Some exampleTerrain \<and>
   (\<exists>t'. servicePendingRequests 1 exampleTile = Some t' \<and> requestsInstalled t' \<and>
         map req_kind (requests t') =
           [TileElevationLayerRequest, TileColorLayerRequest 0, TileColorLayerRequest 1] \<and>
         (\<exists>u'. run exampleTraverse (map ServicePendingRequests [2, 3]) t' = Some u' \<and>
               map req_kind (requests u') =
                 [TileElevationLayerRequest, TileColorLayerRequest 0, TileColorLayerRequest 1]))"
proof -
  let ?es = "[SetTerrain (Some exampleTerrain),
      SetLayers False (Some (Layer 0)) [Some (Layer 1), Some (Layer 2)],
      SetUseLayerRequests True]"
  have r: "run exampleTraverse ?es (VersionedTile exampleKey True) = Some exampleTile"
    by (simp add: exampleTile_def VersionedTile_def setUseLayerRequests_def)
  have ni: "\<not> requestsInstalled exampleTile"
    and tr: "terrain exampleTile = Some exampleTerrain"
    by (simp_all add: exampleTile_def VersionedTile_def)
  from C1_at_most_one_request_per_layer
         [of exampleTraverse ?es exampleKey True exampleTile exampleTerrain 1] r ni tr
  obtain t' where s: "servicePendingRequests 1 exampleTile = Some t'"
    and i: "requestsInstalled t'"
    and k: "map req_kind (requests t') =
              (case layerFactory exampleTerrain of
                 None \<Rightarrow> []
               | Some f \<Rightarrow>
                   (if elevationLayer exampleTile \<noteq> None \<and> requestElevation exampleTile
                    then [TileElevationLayerRequest] else []) @
                   map TileColorLayerRequest [0..<length (colorLayers exampleTile)])"
    by blast
  have k': "map req_kind (requests t') =
           [TileElevationLayerRequest, TileColorLayerRequest 0, TileColorLayerRequest 1]"
    unfolding k
    by (simp add: exampleTile_def exampleTerrain_def VersionedTile_def VersionedTerrain_def
        upt_rec)
  from C1_at_most_one_request_per_layer
         [of exampleTraverse ?es exampleKey True exampleTile exampleTerrain 1 t' "[2, 3]"] i
  obtain u' where "run exampleTraverse (map ServicePendingRequests [2, 3]) t' = Some u'"
    "map req_kind (requests u') = map req_kind (requests t')"
    by blast
  with k' have "\<exists>u'. run exampleTraverse (map ServicePendingRequests [2, 3]) t' = Some u' \<and>
               map req_kind (requests u') =
                 [TileElevationLayerRequest, TileColorLayerRequest 0, TileColorLayerRequest 1]"
    by (intro exI [of _ u']) simp
  with s i k' have "\<exists>t'. servicePendingRequests 1 exampleTile = Some t' \<and> requestsInstalled t' \<and>
         map req_kind (requests t') =
           [TileElevationLayerRequest, TileColorLayerRequest 0, TileColorLayerRequest 1] \<and>
         (\<exists>u'. run exampleTraverse (map ServicePendingRequests [2, 3]) t' = Some u' \<and>
               map req_kind (requests u') =
                 [TileElevationLayerRequest, TileColorLayerRequest 0, TileColorLayerRequest 1])"
    by (intro exI [of _ t']) simp
  with r ni tr show ?thesis by (intro conjI)
qed

text \<open>
  Claim C10. On a tile before its installation, with a terrain that has no factory, the
  first \<^verbatim>\<open>servicePendingRequests\<close> returns with \<^verbatim>\<open>requestsInstalled\<close> set and no
  request created. Whatever happens to the tile afterwards, also when its terrain gets
  a factory, the flag stays set and the collection stays empty.
\<close>

theorem C10_null_factory_installs_nothing:
  assumes "\<not> requestsInstalled t" and "requests t = []"
    and "terrain t = Some tr" and "layerFactory tr = None"
  shows "\<exists>t1. servicePendingRequests st t = Some t1 \<and> requestsInstalled t1 \<and>
              requests t1 = [] \<and>
              (\<forall>es t2. run osg es t1 = Some t2 \<longrightarrow> requestsInstalled t2 \<and> requests t2 = [])"
proof -
  from servicePendingRequests_attached [OF assms(3), of st]
  obtain t1 where s: "servicePendingRequests st t = Some t1" by blast
  from servicePendingRequests_kinds [OF s] assms
  have i: "requestsInstalled t1" and e: "requests t1 = []" by simp_all
  have "\<forall>es t2. run osg es t1 = Some t2 \<longrightarrow> requestsInstalled t2 \<and> requests t2 = []"
    using run_installed_empty [OF _ i e] by blast
  with s i e show ?thesis by blast
qed

theorem C10_null_factory_witness:
  "\<not> requestsInstalled nullFactoryTile \<and> requests nullFactoryTile = [] \<and>
   terrain nullFactoryTile = Some (VersionedTerrain None None) \<and>
   layerFactory (VersionedTerrain None None) = None \<and>
   (\<exists>t1. servicePendingRequests 1 nullFactoryTile = Some t1 \<and> requestsInstalled t1 \<and>
         requests t1 = [] \<and>
         (\<exists>t2. run exampleTraverse
                 [SetTerrain (Some exampleTerrain), ServicePendingRequests 2] t1 = Some t2 \<and>
               requests t2 = []))"
proof -
  let ?es = "[SetTerrain (Some exampleTerrain), ServicePendingRequests 2]"
  have h: "\<not> requestsInstalled nullFactoryTile" "requests nullFactoryTile = []"
    "terrain nullFactoryTile = Some (VersionedTerrain None None)"
    "layerFactory (VersionedTerrain None None) = None"
    by (simp_all add: nullFactoryTile_def exampleTile_def VersionedTile_def VersionedTerrain_def)
  from C10_null_factory_installs_nothing [OF h, of 1 exampleTraverse]
  obtain t1 where s: "servicePendingRequests 1 nullFactoryTile = Some t1"
    and i: "requestsInstalled t1" and e: "requests t1 = []"
    and later: "\<forall>es t2. run exampleTraverse es t1 = Some t2 \<longrightarrow>
                  requestsInstalled t2 \<and> requests t2 = []"
    by blast
  have "requestsInstalled (t1\<lparr>terrain := Some exampleTerrain\<rparr>)" using i by simp
  from servicePendingRequests_installed [OF this, of 2]
  obtain t2 where "servicePendingRequests 2 (t1\<lparr>terrain := Some exampleTerrain\<rparr>) = Some t2"
    by blast
  then have r: "run exampleTraverse ?es t1 = Some t2" by simp
  with later have "requests t2 = []" by blast
  with r have "\<exists>t2. run exampleTraverse ?es t1 = Some t2 \<and> requests t2 = []" by blast
  with s i e have "\<exists>t1. servicePendingRequests 1 nullFactoryTile = Some t1 \<and>
         requestsInstalled t1 \<and> requests t1 = [] \<and>
         (\<exists>t2. run exampleTraverse ?es t1 = Some t2 \<and> requests t2 = [])"
    by blast
  with h show ?thesis by (intro conjI)
qed

section \<open>Properties of the rounding\<close>

lemma bitlen_bounds:
  "0 < a \<Longrightarrow> 1 \<le> bitlen a \<and> 2 ^ nat (bitlen a - 1) \<le> a \<and> a < 2 ^ nat (bitlen a)"
proof (induction a rule: bitlen.induct)
  case (1 a)
  show ?case
  proof (cases "a div 2 = 0")
    case True
    with "1.prems" have a: "a = 1" by presburger
    have "bitlen (1 div 2) = 0" by (subst bitlen.simps) simp
    then have "bitlen 1 = 1" by (subst bitlen.simps) simp
    with a show ?thesis by simp
  next
    case False
    with "1.prems" have pos: "0 < a div 2" by presburger
    with "1.prems" "1.IH" have ih: "1 \<le> bitlen (a div 2)"
      "2 ^ nat (bitlen (a div 2) - 1) \<le> a div 2" "a div 2 < 2 ^ nat (bitlen (a div 2))"
      by simp_all
    have b: "bitlen a = 1 + bitlen (a div 2)"
      using "1.prems" by (subst bitlen.simps) simp
    have n1: "nat (bitlen a - 1) = Suc (nat (bitlen (a div 2) - 1))"
      using ih(1) b by simp
    have n2: "nat (bitlen a) = Suc (nat (bitlen (a div 2)))"
      using ih(1) b by simp
    have lo: "2 ^ nat (bitlen a - 1) \<le> a"
    proof -
      have "2 * 2 ^ nat (bitlen (a div 2) - 1) \<le> 2 * (a div 2)" using ih(2) by simp
      also have "\<dots> \<le> a" by presburger
      finally show ?thesis by (simp add: n1)
    qed
    have hi: "a < 2 ^ nat (bitlen a)"
    proof -
      have "a div 2 + 1 \<le> 2 ^ nat (bitlen (a div 2))" using ih(3) by simp
      then have "2 * (a div 2) + 2 \<le> 2 * 2 ^ nat (bitlen (a div 2))" by simp
      moreover have "a < 2 * (a div 2) + 2" by presburger
      ultimately show ?thesis by (simp add: n2)
    qed
    from b ih(1) lo hi show ?thesis by simp
  qed
qed

lemma bitlen_le:
  assumes "0 < a" and "a < 2 ^ k"
  shows "bitlen a \<le> int k"
proof -
  from bitlen_bounds [OF assms(1)] have 1: "1 \<le> bitlen a"
    and lo: "(2::int) ^ nat (bitlen a - 1) \<le> a" by simp_all
  from lo assms(2) have "(2::int) ^ nat (bitlen a - 1) < 2 ^ k" by (rule le_less_trans)
  then have "nat (bitlen a - 1) < k" by (simp add: power_strict_increasing_iff)
  with 1 show ?thesis by simp
qed

lemma bitlen_one: "bitlen 1 = 1"
proof -
  have "bitlen (1 div 2) = 0" by (subst bitlen.simps) simp
  then show ?thesis by (subst bitlen.simps) simp
qed

lemma ilog2_of_int:
  assumes "0 < a"
  shows "ilog2 (of_int a) = bitlen a - 1"
proof -
  from bitlen_bounds [OF assms] have 1: "1 \<le> bitlen a"
    and lo: "(2::int) ^ nat (bitlen a - 1) \<le> a" by simp_all
  have "(of_int ((2::int) ^ nat (bitlen a - 1)) :: rat) \<le> of_int a"
    using lo by (simp only: of_int_le_iff)
  then have "pow2 (bitlen a - 1) \<le> of_int a"
    using 1 by (simp add: pow2_def)
  then show ?thesis
    by (simp add: ilog2_def bitlen_one)
qed

lemma round_even_of_int: "round_even (of_int m) = m"
  by (simp add: round_even_def)

lemma round_to_of_int:
  assumes "0 < a" and "a < 2 ^ p" and "0 < p"
  shows "round_to p (of_int a) = of_int a"
proof -
  from bitlen_bounds [OF assms(1)] have 1: "1 \<le> bitlen a" by simp
  from bitlen_le [OF assms(1,2)] have 2: "bitlen a \<le> int p" .
  define j where "j = nat (int p - bitlen a)"
  have k: "bitlen a - 1 - int p + 1 = - int j" using 2 by (simp add: j_def)
  have u: "pow2 (- int j) = 1 / 2 ^ j" by (simp add: pow2_def)
  have x: "(of_int a :: rat) / (1 / 2 ^ j) = of_int (a * 2 ^ j)" by simp
  have nz: "(of_int a :: rat) \<noteq> 0" using assms(1) by simp
  have ab: "\<bar>of_int a :: rat\<bar> = of_int a" using assms(1) by simp
  have "round_to p (of_int a) =
        of_int (round_even (of_int a / (1 / 2 ^ j))) * (1 / 2 ^ j)"
    unfolding round_to_def Let_def ab ilog2_of_int [OF assms(1)] k u using nz by simp
  also have "\<dots> = of_int (a * 2 ^ j) * (1 / 2 ^ j)"
    unfolding x round_even_of_int ..
  also have "\<dots> = of_int a" by simp
  finally show ?thesis .
qed

lemma round_to_of_nat:
  assumes "n < 2 ^ p" and "0 < p"
  shows "round_to p (of_nat n) = of_nat n"
proof (cases "n = 0")
  case True
  then show ?thesis by (simp add: round_to_def)
next
  case False
  then have 1: "0 < int n" by simp
  from assms(1) have 2: "int n < 2 ^ p"
    by (metis of_nat_less_iff of_nat_numeral of_nat_power)
  from round_to_of_int [OF 1 2 assms(2)] show ?thesis by simp
qed

lemma pow2_powi: "pow2 k = 2 powi k"
  by (simp add: pow2_def power_int_def power_one_over inverse_eq_divide)

lemma pow2_pos: "0 < pow2 k"
  by (simp add: pow2_powi)

lemma pow2_diff: "pow2 (j - k) = pow2 j / pow2 k"
  by (simp add: pow2_powi power_int_diff)

lemma pow2_add: "pow2 (j + k) = pow2 j * pow2 k"
  by (simp add: pow2_powi power_int_add)

lemma pow2_nat: "pow2 (int n) = 2 ^ n"
  by (simp add: pow2_def)

lemma round_even_error: "\<bar>of_int (round_even q) - q\<bar> \<le> 1 / 2"
proof -
  define n where "n = \<lfloor>q\<rfloor>"
  define r where "r = q - of_int n"
  have r0: "0 \<le> r" and r1: "r < 1" unfolding r_def n_def by linarith+
  have q: "q = of_int n + r" by (simp add: r_def)
  consider "r < 1 / 2" | "1 / 2 < r" | "r = 1 / 2" by linarith
  then show ?thesis
  proof cases
    case 1
    then have "round_even q = n" by (simp add: round_even_def n_def r_def Let_def)
    with r0 1 show ?thesis by (simp add: q)
  next
    case 2
    then have "round_even q = n + 1" by (simp add: round_even_def n_def r_def Let_def)
    with r1 2 show ?thesis by (simp add: q)
  next
    case 3
    then have "round_even q = n \<or> round_even q = n + 1"
      by (simp add: round_even_def n_def r_def Let_def)
    with 3 show ?thesis by (auto simp: q)
  qed
qed

lemma ilog2_lower:
  assumes "0 < x"
  shows "pow2 (ilog2 x) \<le> x"
proof -
  obtain a b where ab: "quotient_of x = (a, b)" by (cases "quotient_of x")
  have b: "0 < b" using ab by (rule quotient_of_denom_pos)
  have x: "x = of_int a / of_int b" using ab by (rule quotient_of_div)
  have a: "0 < a"
  proof -
    from assms x b have "0 < (of_int a :: rat)" by (simp add: zero_less_divide_iff)
    then show ?thesis by simp
  qed
  define e where "e = bitlen a - bitlen b"
  show ?thesis
  proof (cases "pow2 e \<le> x")
    case True
    then show ?thesis by (simp add: ilog2_def ab e_def)
  next
    case False
    then have i: "ilog2 x = e - 1" by (simp add: ilog2_def ab e_def)
    from bitlen_bounds [OF a] have la: "1 \<le> bitlen a" "2 ^ nat (bitlen a - 1) \<le> a"
      by simp_all
    from bitlen_bounds [OF b] have lb: "1 \<le> bitlen b" "b < 2 ^ nat (bitlen b)"
      by simp_all
    have num: "pow2 (bitlen a - 1) \<le> of_int a"
    proof -
      have "(of_int ((2::int) ^ nat (bitlen a - 1)) :: rat) \<le> of_int a"
        using la(2) by (simp only: of_int_le_iff)
      then show ?thesis using la(1) by (simp add: pow2_def)
    qed
    have den: "of_int b \<le> pow2 (bitlen b)"
    proof -
      have "b \<le> 2 ^ nat (bitlen b)" using lb(2) by simp
      then have "(of_int b :: rat) \<le> of_int ((2::int) ^ nat (bitlen b))"
        by (simp only: of_int_le_iff)
      then show ?thesis using lb(1) by (simp add: pow2_def)
    qed
    have "pow2 (e - 1) = pow2 (bitlen a - 1) / pow2 (bitlen b)"
      using pow2_diff [of "bitlen a - 1" "bitlen b"] by (simp add: e_def algebra_simps)
    also have "\<dots> \<le> of_int a / pow2 (bitlen b)"
      using num pow2_pos [of "bitlen b"] by (simp add: divide_right_mono)
    also have "\<dots> \<le> of_int a / of_int b"
      using den a b by (simp add: frac_le)
    finally have "pow2 (e - 1) \<le> of_int a / of_int b" .
    then have "pow2 (e - 1) \<le> x" by (simp only: x [symmetric])
    then show ?thesis by (simp only: i)
  qed
qed

lemma round_to_error:
  assumes "0 < x"
  shows "\<bar>round_to p x - x\<bar> \<le> x * pow2 (- int p)"
proof -
  define u where "u = pow2 (ilog2 x - int p + 1)"
  have u: "0 < u" by (simp add: u_def pow2_pos)
  have ab: "\<bar>x\<bar> = x" using assms by simp
  have r: "round_to p x = of_int (round_even (x / u)) * u"
    using assms by (simp add: round_to_def Let_def u_def ab)
  have "round_to p x - x = (of_int (round_even (x / u)) - x / u) * u"
    using u by (simp add: r field_simps)
  then have "\<bar>round_to p x - x\<bar> = \<bar>of_int (round_even (x / u)) - x / u\<bar> * u"
    using u by (simp add: abs_mult)
  also have "\<dots> \<le> (1 / 2) * u"
    using round_even_error [of "x / u"] u by (simp add: mult_right_mono)
  also have "\<dots> = pow2 (ilog2 x) * pow2 (- int p)"
  proof -
    have "u = pow2 (ilog2 x) * pow2 (- int p) * pow2 1"
      unfolding u_def pow2_add [symmetric] by (simp add: algebra_simps)
    moreover have "pow2 1 = 2" by (simp add: pow2_def)
    ultimately show ?thesis by simp
  qed
  also have "\<dots> \<le> x * pow2 (- int p)"
    using ilog2_lower [OF assms] pow2_pos [of "- int p"] by (simp add: mult_right_mono)
  finally show ?thesis .
qed

lemma round_to_rel:
  assumes "0 \<le> x"
  shows "\<bar>round_to p x - x\<bar> \<le> pow2 (- int p) * x"
proof (cases "x = 0")
  case True
  then show ?thesis by (simp add: round_to_def)
next
  case False
  with assms have "0 < x" by simp
  from round_to_error [OF this, of p] show ?thesis by (simp add: mult.commute)
qed

lemma rel_trans:
  fixes x y z a b :: rat
  assumes "0 \<le> x" and "\<bar>y - x\<bar> \<le> a * x" and "\<bar>z - y\<bar> \<le> b * y" and "0 \<le> b"
  shows "\<bar>z - x\<bar> \<le> (a + b + a * b) * x"
proof -
  from assms(2) have "y \<le> (1 + a) * x" by (simp add: algebra_simps abs_le_iff)
  from this assms(4) have "b * y \<le> b * ((1 + a) * x)" by (rule mult_left_mono)
  with assms(3) have zy: "\<bar>z - y\<bar> \<le> b * ((1 + a) * x)" by simp
  have "\<bar>z - x\<bar> \<le> \<bar>z - y\<bar> + \<bar>y - x\<bar>" by simp
  also have "\<dots> \<le> b * ((1 + a) * x) + a * x" using zy assms(2) by simp
  also have "\<dots> = (a + b + a * b) * x" by (simp add: algebra_simps)
  finally show ?thesis .
qed

lemma rel_nonneg:
  fixes x y a :: rat
  assumes "0 \<le> x" and "\<bar>y - x\<bar> \<le> a * x" and "a \<le> 1"
  shows "0 \<le> y"
proof -
  from assms(3,1) have "a * x \<le> 1 * x" by (rule mult_right_mono)
  with assms(2) have "\<bar>y - x\<bar> \<le> x" by simp
  then show ?thesis by (simp add: abs_le_iff)
qed

lemma colorPriority_error:
  fixes l i :: nat
  defines "X \<equiv> of_nat l + of_nat i / 10"
  shows "\<bar>to_float (to_double (of_nat l + to_double (to_double (1 / 10) * of_nat i))) - X\<bar>
         \<le> X / 2 ^ 23"
proof -
  define d :: rat where "d = 1 / 2 ^ 53"
  define e :: rat where "e = 1 / 2 ^ 24"
  define c where "c = to_double (1 / 10)"
  define p1 where "p1 = to_double (c * of_nat i)"
  define s where "s = of_nat l + p1"
  define s2 where "s2 = to_double s"
  define pr where "pr = to_float s2"
  define a1 where "a1 = d + d + d * d"
  define a2 where "a2 = a1 + d + a1 * d"
  define a3 where "a3 = a2 + e + a2 * e"
  have d53: "pow2 (- 53) = d" by (simp add: pow2_def d_def)
  have e24: "pow2 (- 24) = e" by (simp add: pow2_def e_def)
  have d0: "0 \<le> d" and e0: "0 \<le> e" by (simp_all add: d_def e_def)
  have small: "d \<le> 1" "a1 \<le> 1" "a2 \<le> 1"
    by (simp_all add: a2_def a1_def d_def)
  have final: "a3 \<le> 1 / 2 ^ 23"
    by (simp add: a3_def a2_def a1_def d_def e_def)
  have i0: "(0::rat) \<le> of_nat i / 10" by simp
  have X0: "0 \<le> X" by (simp add: X_def)
  have iX: "of_nat i / 10 \<le> X" by (simp add: X_def)
  \<comment> \<open>the double nearest to one tenth\<close>
  have c: "\<bar>c - 1 / 10\<bar> \<le> d * (1 / 10)"
    using round_to_rel [of "1 / 10" 53] by (simp add: c_def to_double_def d53)
  have c0: "0 \<le> c"
    using rel_nonneg [OF _ c small(1)] by simp
  \<comment> \<open>the product, before and after its rounding\<close>
  have "\<bar>c * of_nat i - of_nat i / 10\<bar> = \<bar>c - 1 / 10\<bar> * of_nat i"
  proof -
    have "c * of_nat i - of_nat i / 10 = (c - 1 / 10) * of_nat i"
      by (simp add: algebra_simps)
    then show ?thesis by (simp add: abs_mult)
  qed
  also have "\<dots> \<le> (d * (1 / 10)) * of_nat i"
    using c by (rule mult_right_mono) simp
  finally have ci: "\<bar>c * of_nat i - of_nat i / 10\<bar> \<le> d * (of_nat i / 10)" by simp
  have ci0: "0 \<le> c * of_nat i" using c0 by simp
  have p1: "\<bar>p1 - c * of_nat i\<bar> \<le> d * (c * of_nat i)"
    using round_to_rel [OF ci0, of 53] by (simp add: p1_def to_double_def d53)
  have p1x: "\<bar>p1 - of_nat i / 10\<bar> \<le> a1 * (of_nat i / 10)"
    unfolding a1_def by (rule rel_trans [OF i0 ci p1 d0])
  \<comment> \<open>the sum, before and after its rounding\<close>
  have "\<bar>s - X\<bar> = \<bar>p1 - of_nat i / 10\<bar>" by (simp add: s_def X_def)
  also have "\<dots> \<le> a1 * (of_nat i / 10)" by (rule p1x)
  also have "\<dots> \<le> a1 * X"
    using iX by (rule mult_left_mono) (simp add: a1_def d_def)
  finally have sx: "\<bar>s - X\<bar> \<le> a1 * X" .
  have s0: "0 \<le> s" by (rule rel_nonneg [OF X0 sx small(2)])
  have s2: "\<bar>s2 - s\<bar> \<le> d * s"
    using round_to_rel [OF s0, of 53] by (simp add: s2_def to_double_def d53)
  have s2x: "\<bar>s2 - X\<bar> \<le> a2 * X"
    unfolding a2_def by (rule rel_trans [OF X0 sx s2 d0])
  have s20: "0 \<le> s2" by (rule rel_nonneg [OF X0 s2x small(3)])
  \<comment> \<open>the conversion to single precision\<close>
  have pr: "\<bar>pr - s2\<bar> \<le> e * s2"
    using round_to_rel [OF s20, of 24] by (simp add: pr_def to_float_def e24)
  have "\<bar>pr - X\<bar> \<le> a3 * X"
    unfolding a3_def by (rule rel_trans [OF X0 s2x pr e0])
  also have "\<dots> \<le> (1 / 2 ^ 23) * X"
    using final X0 by (rule mult_right_mono)
  finally have "\<bar>pr - X\<bar> \<le> X / 2 ^ 23" by simp
  then show ?thesis
    by (simp only: pr_def s2_def s_def p1_def c_def)
qed

lemma round_to_dyadic: "\<exists>m e. round_to p x = of_int m * pow2 e"
proof (cases "x = 0")
  case True
  then have "round_to p x = of_int 0 * pow2 0" by (simp add: round_to_def)
  then show ?thesis by blast
next
  case False
  then have "round_to p x =
      of_int (round_even (x / pow2 (ilog2 \<bar>x\<bar> - int p + 1))) * pow2 (ilog2 \<bar>x\<bar> - int p + 1)"
    by (simp add: round_to_def Let_def)
  then show ?thesis by blast
qed

text \<open>
  A number with a binary significand is not a whole number plus \<open>i\<close> tenths, unless
  \<open>i\<close> is a multiple of 5.
\<close>

lemma dyadic_not_tenth:
  fixes l i :: nat
  assumes "\<not> 5 dvd i"
  shows "of_int m * pow2 e \<noteq> (of_nat l + of_nat i / 10 :: rat)"
proof
  assume eq: "of_int m * pow2 e = (of_nat l + of_nat i / 10 :: rat)"
  then have ten: "of_int (10 * m) * pow2 e = (of_int (10 * int l + int i) :: rat)"
    by (simp add: field_simps)
  have "5 dvd (10 * int l + int i)"
  proof (cases "0 \<le> e")
    case True
    then have "pow2 e = of_int (2 ^ nat e)" by (simp add: pow2_def)
    with ten have "(of_int (10 * m * 2 ^ nat e) :: rat) = of_int (10 * int l + int i)"
      by simp
    then have "10 * m * 2 ^ nat e = 10 * int l + int i" by (simp only: of_int_eq_iff)
    then have "10 * int l + int i = 5 * (2 * m * 2 ^ nat e)" by simp
    then show ?thesis by (rule dvdI)
  next
    case False
    then have "pow2 e = 1 / of_int (2 ^ nat (- e))" by (simp add: pow2_def)
    with ten have "(of_int (10 * m) :: rat) = of_int ((10 * int l + int i) * 2 ^ nat (- e))"
      by (simp add: field_simps)
    then have "10 * m = (10 * int l + int i) * 2 ^ nat (- e)" by (simp only: of_int_eq_iff)
    then have "(10 * int l + int i) * 2 ^ nat (- e) = 5 * (2 * m)" by simp
    then have "5 dvd (10 * int l + int i) * 2 ^ nat (- e)" by (rule dvdI)
    moreover have "coprime (5::int) (2 ^ nat (- e))" by simp
    ultimately show ?thesis by (simp add: coprime_dvd_mult_left_iff)
  qed
  then have "(5::int) dvd int i" by presburger
  then have "5 dvd i" by presburger
  with assms show False ..
qed

lemma to_float_not_tenth:
  fixes l i :: nat
  assumes "\<not> 5 dvd i"
  shows "to_float x \<noteq> of_nat l + of_nat i / 10"
proof -
  obtain m e where "to_float x = of_int m * pow2 e"
    unfolding to_float_def using round_to_dyadic by blast
  with dyadic_not_tenth [OF assms] show ?thesis by simp
qed

section \<open>The priorities of the requests (claim C9)\<close>

lemma installColorRequest_priorities:
  "map kindPriority (snd (installColorRequest st f k i trs)) =
   map kindPriority (snd trs) @
   [(TileColorLayerRequest i,
     to_float (to_double (to_float (of_nat (levelOfDetail k)) +
                          to_double (to_double (1 / 10) * to_float (of_nat i)))))]"
  by (simp add: installColorRequest_def Let_def split_def TileLayerRequest_def
      setPriority_def setStamp_def setProgressCallback_def kindPriority_def)

lemma installColorRequests_priorities:
  "map kindPriority (snd (installColorRequests st f k is trs)) =
   map kindPriority (snd trs) @
   map (\<lambda>i. (TileColorLayerRequest i,
             to_float (to_double (to_float (of_nat (levelOfDetail k)) +
                                  to_double (to_double (1 / 10) * to_float (of_nat i))))))
       is"
  by (induction "is" arbitrary: trs) (simp_all add: installColorRequest_priorities)

lemma installElevationRequest_priorities:
  "map kindPriority (snd (installElevationRequest st f k trs)) =
   map kindPriority (snd trs) @
   [(TileElevationLayerRequest, to_float (to_float (of_nat (levelOfDetail k))))]"
  by (simp add: installElevationRequest_def Let_def split_def TileLayerRequest_def
      setPriority_def setStamp_def setProgressCallback_def kindPriority_def)

lemma installRequests_priorities:
  "layerFactory tr = Some f \<Longrightarrow>
   map kindPriority (requests (installRequests st tr t)) =
   map kindPriority (requests t) @
   (if elevationLayer t \<noteq> None \<and> requestElevation t
    then [(TileElevationLayerRequest, to_float (to_float (of_nat (levelOfDetail (key t)))))]
    else []) @
   map (\<lambda>i. (TileColorLayerRequest i,
             to_float (to_double (to_float (of_nat (levelOfDetail (key t))) +
                                  to_double (to_double (1 / 10) * to_float (of_nat i))))))
       [0..<length (colorLayers t)]"
  by (simp add: installRequests_def getTileLayerFactory_def Let_def getNumColorLayers_def
      installColorRequests_priorities installElevationRequest_priorities)

lemma serviceOne_kindPriority: "kindPriority (serviceOne st r) = kindPriority r"
  by (simp add: serviceOne_def setStamp_def kindPriority_def)

lemma first_pass_priorities:
  fixes st :: c_int
  assumes "\<not> requestsInstalled t" and "requests t = []"
    and "terrain t = Some tr" and "layerFactory tr = Some f"
  shows "\<exists>t'. servicePendingRequests st t = Some t' \<and>
     map kindPriority (requests t') =
       (if elevationLayer t \<noteq> None \<and> requestElevation t
        then [(TileElevationLayerRequest, to_float (to_float (of_nat (levelOfDetail (key t)))))]
        else []) @
       map (\<lambda>i. (TileColorLayerRequest i,
                 to_float (to_double (to_float (of_nat (levelOfDetail (key t))) +
                                      to_double (to_double (1 / 10) * to_float (of_nat i))))))
           [0..<length (colorLayers t)]"
proof -
  from servicePendingRequests_attached [OF assms(3), of st] assms(1)
  obtain t' where s: "servicePendingRequests st t = Some t'"
    and rs: "requests t' = map (serviceOne st) (requests (installRequests st tr t))"
    by auto
  have "map kindPriority (requests t') =
        map kindPriority (requests (installRequests st tr t))"
    by (simp add: rs comp_def serviceOne_kindPriority)
  then have "map kindPriority (requests t') =
       (if elevationLayer t \<noteq> None \<and> requestElevation t
        then [(TileElevationLayerRequest, to_float (to_float (of_nat (levelOfDetail (key t)))))]
        else []) @
       map (\<lambda>i. (TileColorLayerRequest i,
                 to_float (to_double (to_float (of_nat (levelOfDetail (key t))) +
                                      to_double (to_double (1 / 10) * to_float (of_nat i))))))
           [0..<length (colorLayers t)]"
    unfolding installRequests_priorities [OF assms(4)] by (simp add: assms(2))
  with s show ?thesis by (intro exI [of _ t']) simp
qed

lemma kindPriority_member:
  assumes "map kindPriority rs = ps" and "r \<in> set rs"
  shows "(req_kind r, priority r) \<in> set ps"
proof -
  from assms(2) have "kindPriority r \<in> kindPriority ` set rs" by (rule imageI)
  then have "kindPriority r \<in> set (map kindPriority rs)" by (simp only: set_map)
  then show ?thesis by (simp only: assms(1) kindPriority_def)
qed

lemma to_float_of_nat: "n < 2 ^ 24 \<Longrightarrow> to_float (of_nat n) = of_nat n"
  by (simp add: to_float_def round_to_of_nat)

lemma to_double_of_nat: "n < 2 ^ 53 \<Longrightarrow> to_double (of_nat n) = of_nat n"
  by (simp add: to_double_def round_to_of_nat)

lemma to_double_zero: "to_double 0 = 0"
  by (simp add: to_double_def round_to_def)

lemma to_float_zero: "to_float 0 = 0"
  by (simp add: to_float_def round_to_def)

lemma colorPriority_zero:
  assumes "n < 2 ^ 24"
  shows "to_float (to_double (to_float (of_nat n) +
                   to_double (to_double (1 / 10) * to_float (of_nat 0)))) = of_nat n"
proof -
  have "n < 2 ^ 53"
    using assms by (rule less_le_trans) simp
  then show ?thesis
    using assms by (simp add: to_float_zero to_double_zero to_float_of_nat to_double_of_nat)
qed

text \<open>The priorities of the tile at level 3: the numbers that the rounding gives.\<close>

lemma priority_3_1:
  "to_float (to_double (3 + to_double (to_double (1 / 10)))) = 13002342 / 4194304"
  by code_simp

lemma float_3: "to_float 3 = 3"
proof -
  have "(3::nat) < 2 ^ 24" by simp
  from to_float_of_nat [OF this] show ?thesis by simp
qed

lemma float_1: "to_float 1 = 1"
proof -
  have "(1::nat) < 2 ^ 24" by simp
  from to_float_of_nat [OF this] show ?thesis by simp
qed

lemma double_3: "to_double 3 = 3"
proof -
  have "(3::nat) < 2 ^ 53" by simp
  from to_double_of_nat [OF this] show ?thesis by simp
qed

lemma exampleTile_priorities:
  "(if elevationLayer exampleTile \<noteq> None \<and> requestElevation exampleTile
    then [(TileElevationLayerRequest,
           to_float (to_float (of_nat (levelOfDetail (key exampleTile)))))]
    else []) @
   map (\<lambda>i. (TileColorLayerRequest i,
             to_float (to_double (to_float (of_nat (levelOfDetail (key exampleTile))) +
                                  to_double (to_double (1 / 10) * to_float (of_nat i))))))
       [0..<length (colorLayers exampleTile)] =
   [(TileElevationLayerRequest, 3), (TileColorLayerRequest 0, 3),
    (TileColorLayerRequest 1, 13002342 / 4194304)]"
  by (simp add: exampleTile_def exampleKey_def VersionedTile_def upt_rec
      float_3 float_1 double_3 to_float_zero to_double_zero priority_3_1)

lemma exampleTile_fresh:
  "\<not> requestsInstalled exampleTile" "requests exampleTile = []"
  "terrain exampleTile = Some exampleTerrain"
  "layerFactory exampleTerrain = Some (TileLayerFactory 0)"
  by (simp_all add: exampleTile_def exampleTerrain_def exampleKey_def VersionedTile_def
      VersionedTerrain_def)

text \<open>
  Claim C9 as stated fails at its own example. The first servicing pass of the tile at
  level 3 with an elevation layer and two color layers gives the three requests the
  priorities 3, 3 and \<open>13002342 / 4194304\<close> (3.0999999046...), the single precision
  number nearest to 3.1: the third priority is not \<open>3 + 0.1 * 1\<close>.
\<close>

theorem C9_priority_counterexample:
  "\<exists>t'. servicePendingRequests 1 exampleTile = Some t' \<and>
        map (\<lambda>r. (req_kind r, priority r)) (requests t') =
          [(TileElevationLayerRequest, 3), (TileColorLayerRequest 0, 3),
           (TileColorLayerRequest 1, 13002342 / 4194304)] \<and>
        map priority (requests t') \<noteq> [3, 3, 3 + 1 / 10 * 1]"
proof -
  from first_pass_priorities [OF exampleTile_fresh, of 1]
  obtain t' where s: "servicePendingRequests 1 exampleTile = Some t'"
    and ps: "map kindPriority (requests t') =
          [(TileElevationLayerRequest, 3), (TileColorLayerRequest 0, 3),
           (TileColorLayerRequest 1, 13002342 / 4194304)]"
    unfolding exampleTile_priorities by (elim exE conjE)
  have kp: "(\<lambda>r. (req_kind r, priority r)) = kindPriority"
    by (rule ext) (simp add: kindPriority_def)
  have "map priority (requests t') = map snd (map kindPriority (requests t'))"
    by (simp add: comp_def kindPriority_def)
  then have "map priority (requests t') = [3, 3, 13002342 / 4194304]"
    by (simp add: ps)
  then have "map priority (requests t') \<noteq> [3, 3, 3 + 1 / 10 * 1]" by simp
  with s ps show ?thesis by (intro exI [of _ t']) (simp add: kp)
qed

text \<open>
  Claim C9, amended. Priorities are single precision numbers. The first servicing pass
  of a tile at level \<open>L\<close> on a terrain with a factory creates the requests in the order
  elevation, color 0, color 1, and so on; the elevation request gets \<^verbatim>\<open>(float)L\<close>,
  the request for color layer \<open>i\<close> gets \<^verbatim>\<open>(float)L + 0.1 * (float)i\<close> as the code
  computes it: the product and the sum in double precision, with the double nearest to
  0.1, converted to single precision. For a level below \<open>2^24\<close> (as every level of a
  quadtree is) the priority of the elevation request and of color layer 0 is exactly
  \<open>L\<close>, and with at most \<open>2^24\<close> color layers the priority of color layer \<open>i\<close> is
  \<open>L + i / 10\<close> up to the rounding of single precision, a relative error of at most
  \<open>2^-23\<close>. It is never equal to \<open>L + i / 10\<close> when \<open>i\<close> is not a multiple of 5.
\<close>

theorem C9_request_priorities:
  fixes st :: c_int
  assumes "\<not> requestsInstalled t" and "requests t = []"
    and "terrain t = Some tr" and "layerFactory tr = Some f"
  shows "\<exists>t'. servicePendingRequests st t = Some t' \<and>
     map (\<lambda>r. (req_kind r, priority r)) (requests t') =
       (if elevationLayer t \<noteq> None \<and> requestElevation t
        then [(TileElevationLayerRequest, to_float (to_float (of_nat (levelOfDetail (key t)))))]
        else []) @
       map (\<lambda>i. (TileColorLayerRequest i,
                 to_float (to_double (to_float (of_nat (levelOfDetail (key t))) +
                                      to_double (to_double (1 / 10) * to_float (of_nat i))))))
           [0..<length (colorLayers t)] \<and>
     (levelOfDetail (key t) < 2 ^ 24 \<longrightarrow>
        (\<forall>r\<in>set (requests t').
           req_kind r = TileElevationLayerRequest \<or> req_kind r = TileColorLayerRequest 0 \<longrightarrow>
           priority r = of_nat (levelOfDetail (key t)))) \<and>
     (levelOfDetail (key t) < 2 ^ 24 \<and> length (colorLayers t) \<le> 2 ^ 24 \<longrightarrow>
        (\<forall>r\<in>set (requests t'). \<forall>i.
           req_kind r = TileColorLayerRequest i \<longrightarrow>
           \<bar>priority r - (of_nat (levelOfDetail (key t)) + of_nat i / 10)\<bar>
             \<le> (of_nat (levelOfDetail (key t)) + of_nat i / 10) / 2 ^ 23)) \<and>
     (\<forall>r\<in>set (requests t'). \<forall>i.
        req_kind r = TileColorLayerRequest i \<and> \<not> 5 dvd i \<longrightarrow>
        priority r \<noteq> of_nat (levelOfDetail (key t)) + of_nat i / 10)"
proof -
  let ?L = "levelOfDetail (key t)"
  let ?n = "length (colorLayers t)"
  let ?cp = "\<lambda>i. to_float (to_double (to_float (of_nat ?L) +
                                         to_double (to_double (1 / 10) * to_float (of_nat i))))"
  let ?ps = "(if elevationLayer t \<noteq> None \<and> requestElevation t
        then [(TileElevationLayerRequest, to_float (to_float (of_nat ?L)))] else []) @
       map (\<lambda>i. (TileColorLayerRequest i, ?cp i)) [0..<?n]"
  from first_pass_priorities [OF assms, of st]
  obtain t' where s: "servicePendingRequests st t = Some t'"
    and all: "map kindPriority (requests t') = ?ps" by blast
  have kp: "(\<lambda>r. (req_kind r, priority r)) = kindPriority"
    by (rule ext) (simp add: kindPriority_def)
  have elev: "priority r = to_float (to_float (of_nat ?L))"
    if "r \<in> set (requests t')" and "req_kind r = TileElevationLayerRequest" for r
  proof -
    from kindPriority_member [OF all that(1)]
    have "(TileElevationLayerRequest, priority r) \<in> set ?ps" by (simp only: that(2))
    then show ?thesis by (auto split: if_splits)
  qed
  have color: "priority r = ?cp i \<and> i < ?n"
    if "r \<in> set (requests t')" and "req_kind r = TileColorLayerRequest i" for r i
  proof -
    from kindPriority_member [OF all that(1)]
    have "(TileColorLayerRequest i, priority r) \<in> set ?ps" by (simp only: that(2))
    then show ?thesis by (auto split: if_splits)
  qed
  have exact: "levelOfDetail (key t) < 2 ^ 24 \<longrightarrow>
        (\<forall>r\<in>set (requests t').
           req_kind r = TileElevationLayerRequest \<or> req_kind r = TileColorLayerRequest 0 \<longrightarrow>
           priority r = of_nat ?L)"
  proof (intro impI ballI)
    fix r
    assume L: "?L < 2 ^ 24" and r: "r \<in> set (requests t')"
      and k: "req_kind r = TileElevationLayerRequest \<or> req_kind r = TileColorLayerRequest 0"
    from k show "priority r = of_nat ?L"
    proof
      assume "req_kind r = TileElevationLayerRequest"
      from elev [OF r this] show ?thesis by (simp add: to_float_of_nat [OF L])
    next
      assume "req_kind r = TileColorLayerRequest 0"
      from color [OF r this] have "priority r = ?cp 0" by simp
      then show ?thesis by (simp only: colorPriority_zero [OF L])
    qed
  qed
  have near: "levelOfDetail (key t) < 2 ^ 24 \<and> length (colorLayers t) \<le> 2 ^ 24 \<longrightarrow>
        (\<forall>r\<in>set (requests t'). \<forall>i.
           req_kind r = TileColorLayerRequest i \<longrightarrow>
           \<bar>priority r - (of_nat ?L + of_nat i / 10)\<bar> \<le> (of_nat ?L + of_nat i / 10) / 2 ^ 23)"
  proof (intro impI ballI allI)
    fix r i
    assume b: "?L < 2 ^ 24 \<and> ?n \<le> 2 ^ 24" and r: "r \<in> set (requests t')"
      and k: "req_kind r = TileColorLayerRequest i"
    from color [OF r k] have p: "priority r = ?cp i" and i: "i < ?n" by simp_all
    from i b have "i < 2 ^ 24" by simp
    then have fi: "to_float (of_nat i) = of_nat i" by (rule to_float_of_nat)
    from b have fl: "to_float (of_nat ?L) = of_nat ?L" by (simp add: to_float_of_nat)
    have "priority r =
        to_float (to_double (of_nat ?L + to_double (to_double (1 / 10) * of_nat i)))"
      by (simp only: p fi fl)
    then show "\<bar>priority r - (of_nat ?L + of_nat i / 10)\<bar>
               \<le> (of_nat ?L + of_nat i / 10) / 2 ^ 23"
      by (simp only: colorPriority_error)
  qed
  have never: "\<forall>r\<in>set (requests t'). \<forall>i.
        req_kind r = TileColorLayerRequest i \<and> \<not> 5 dvd i \<longrightarrow>
        priority r \<noteq> of_nat ?L + of_nat i / 10"
  proof (intro ballI allI impI)
    fix r i
    assume r: "r \<in> set (requests t')"
      and k: "req_kind r = TileColorLayerRequest i \<and> \<not> 5 dvd i"
    from k have k1: "req_kind r = TileColorLayerRequest i" and k2: "\<not> 5 dvd i" by simp_all
    from color [OF r k1] have p: "priority r = ?cp i" by simp
    show "priority r \<noteq> of_nat ?L + of_nat i / 10"
      unfolding p by (rule to_float_not_tenth [OF k2])
  qed
  from all have all': "map (\<lambda>r. (req_kind r, priority r)) (requests t') = ?ps"
    by (simp only: kp)
  from s all' exact near never show ?thesis by (intro exI [of _ t'] conjI)
qed

theorem C9_request_priorities_witness:
  "\<not> requestsInstalled exampleTile \<and> requests exampleTile = [] \<and>
   terrain exampleTile = Some exampleTerrain \<and>
   layerFactory exampleTerrain = Some (TileLayerFactory 0) \<and>
   levelOfDetail (key exampleTile) < 2 ^ 24 \<and> length (colorLayers exampleTile) \<le> 2 ^ 24 \<and>
   \<not> 5 dvd (1::nat) \<and>
   (\<exists>t'. servicePendingRequests 1 exampleTile = Some t' \<and>
      map (\<lambda>r. (req_kind r, priority r)) (requests t') =
        [(TileElevationLayerRequest, 3), (TileColorLayerRequest 0, 3),
         (TileColorLayerRequest 1, 13002342 / 4194304)] \<and>
      (\<exists>r\<in>set (requests t').
         req_kind r = TileElevationLayerRequest \<and> priority r = 3) \<and>
      (\<exists>r\<in>set (requests t').
         req_kind r = TileColorLayerRequest 1 \<and> priority r \<noteq> 3 + 1 / 10 \<and>
         \<bar>priority r - (3 + 1 / 10)\<bar> \<le> (3 + 1 / 10) / 2 ^ 23))"
proof -
  note h = exampleTile_fresh
  have b: "levelOfDetail (key exampleTile) < 2 ^ 24" "length (colorLayers exampleTile) \<le> 2 ^ 24"
    by (simp_all add: exampleTile_def exampleKey_def VersionedTile_def)
  have L: "levelOfDetail (key exampleTile) = 3"
    by (simp add: exampleTile_def exampleKey_def VersionedTile_def)
  have five: "\<not> 5 dvd (1::nat)" by simp
  from C9_request_priorities [OF h, of 1]
  obtain t' where all: "servicePendingRequests 1 exampleTile = Some t' \<and>
     map (\<lambda>r. (req_kind r, priority r)) (requests t') =
       (if elevationLayer exampleTile \<noteq> None \<and> requestElevation exampleTile
        then [(TileElevationLayerRequest,
               to_float (to_float (of_nat (levelOfDetail (key exampleTile)))))]
        else []) @
       map (\<lambda>i. (TileColorLayerRequest i,
                 to_float (to_double (to_float (of_nat (levelOfDetail (key exampleTile))) +
                                      to_double (to_double (1 / 10) * to_float (of_nat i))))))
           [0..<length (colorLayers exampleTile)] \<and>
     (levelOfDetail (key exampleTile) < 2 ^ 24 \<longrightarrow>
        (\<forall>r\<in>set (requests t').
           req_kind r = TileElevationLayerRequest \<or> req_kind r = TileColorLayerRequest 0 \<longrightarrow>
           priority r = of_nat (levelOfDetail (key exampleTile)))) \<and>
     (levelOfDetail (key exampleTile) < 2 ^ 24 \<and> length (colorLayers exampleTile) \<le> 2 ^ 24 \<longrightarrow>
        (\<forall>r\<in>set (requests t'). \<forall>i.
           req_kind r = TileColorLayerRequest i \<longrightarrow>
           \<bar>priority r - (of_nat (levelOfDetail (key exampleTile)) + of_nat i / 10)\<bar>
             \<le> (of_nat (levelOfDetail (key exampleTile)) + of_nat i / 10) / 2 ^ 23)) \<and>
     (\<forall>r\<in>set (requests t'). \<forall>i.
        req_kind r = TileColorLayerRequest i \<and> \<not> 5 dvd i \<longrightarrow>
        priority r \<noteq> of_nat (levelOfDetail (key exampleTile)) + of_nat i / 10)" ..
  have s: "servicePendingRequests 1 exampleTile = Some t'"
    using all by (rule conjunct1)
  have ps: "map (\<lambda>r. (req_kind r, priority r)) (requests t') =
        [(TileElevationLayerRequest, 3), (TileColorLayerRequest 0, 3),
         (TileColorLayerRequest 1, 13002342 / 4194304)]"
    using conjunct1 [OF conjunct2 [OF all]] unfolding exampleTile_priorities .
  have exact: "\<forall>r\<in>set (requests t').
           req_kind r = TileElevationLayerRequest \<or> req_kind r = TileColorLayerRequest 0 \<longrightarrow>
           priority r = 3"
    using conjunct1 [OF conjunct2 [OF conjunct2 [OF all]]] b(1) by (simp add: L)
  have near: "\<forall>r\<in>set (requests t'). \<forall>i.
           req_kind r = TileColorLayerRequest i \<longrightarrow>
           \<bar>priority r - (3 + of_nat i / 10)\<bar> \<le> (3 + of_nat i / 10) / 2 ^ 23"
    using conjunct1 [OF conjunct2 [OF conjunct2 [OF conjunct2 [OF all]]]] b by (simp add: L)
  have never: "\<forall>r\<in>set (requests t'). \<forall>i.
        req_kind r = TileColorLayerRequest i \<and> \<not> 5 dvd i \<longrightarrow> priority r \<noteq> 3 + of_nat i / 10"
    using conjunct2 [OF conjunct2 [OF conjunct2 [OF conjunct2 [OF all]]]] by (simp add: L)
  have "length (map (\<lambda>r. (req_kind r, priority r)) (requests t')) = 3"
    unfolding ps by simp
  then have len: "length (requests t') = 3" by simp
  have "map (\<lambda>r. (req_kind r, priority r)) (requests t') ! 0 = (TileElevationLayerRequest, 3)"
    unfolding ps by simp
  then have k0: "req_kind (requests t' ! 0) = TileElevationLayerRequest"
    using len by simp
  have "map (\<lambda>r. (req_kind r, priority r)) (requests t') ! 2 =
        (TileColorLayerRequest 1, 13002342 / 4194304)"
    unfolding ps by simp
  then have k2: "req_kind (requests t' ! 2) = TileColorLayerRequest 1"
    using len by simp
  have m0: "requests t' ! 0 \<in> set (requests t')" and m2: "requests t' ! 2 \<in> set (requests t')"
    using len by simp_all
  from bspec [OF exact m0] k0 have e0: "priority (requests t' ! 0) = 3" by simp
  from spec [OF bspec [OF never m2], of 1] k2 five
  have n2: "priority (requests t' ! 2) \<noteq> 3 + 1 / 10" by simp
  from spec [OF bspec [OF near m2], of 1] k2
  have a2: "\<bar>priority (requests t' ! 2) - (3 + 1 / 10)\<bar> \<le> (3 + 1 / 10) / 2 ^ 23"
    by simp
  from k0 e0 have "req_kind (requests t' ! 0) = TileElevationLayerRequest \<and>
      priority (requests t' ! 0) = 3" by (rule conjI)
  with m0 have first:
    "\<exists>r\<in>set (requests t'). req_kind r = TileElevationLayerRequest \<and> priority r = 3"
    by (rule rev_bexI)
  from k2 n2 a2 have "req_kind (requests t' ! 2) = TileColorLayerRequest 1 \<and>
      priority (requests t' ! 2) \<noteq> 3 + 1 / 10 \<and>
      \<bar>priority (requests t' ! 2) - (3 + 1 / 10)\<bar> \<le> (3 + 1 / 10) / 2 ^ 23"
    by (intro conjI)
  with m2 have second: "\<exists>r\<in>set (requests t').
         req_kind r = TileColorLayerRequest 1 \<and> priority r \<noteq> 3 + 1 / 10 \<and>
         \<bar>priority r - (3 + 1 / 10)\<bar> \<le> (3 + 1 / 10) / 2 ^ 23"
    by (rule rev_bexI)
  from s ps first second have "servicePendingRequests 1 exampleTile = Some t' \<and>
      map (\<lambda>r. (req_kind r, priority r)) (requests t') =
        [(TileElevationLayerRequest, 3), (TileColorLayerRequest 0, 3),
         (TileColorLayerRequest 1, 13002342 / 4194304)] \<and>
      (\<exists>r\<in>set (requests t').
         req_kind r = TileElevationLayerRequest \<and> priority r = 3) \<and>
      (\<exists>r\<in>set (requests t').
         req_kind r = TileColorLayerRequest 1 \<and> priority r \<noteq> 3 + 1 / 10 \<and>
         \<bar>priority r - (3 + 1 / 10)\<bar> \<le> (3 + 1 / 10) / 2 ^ 23)"
    by (intro conjI)
  then have "\<exists>t'. servicePendingRequests 1 exampleTile = Some t' \<and>
      map (\<lambda>r. (req_kind r, priority r)) (requests t') =
        [(TileElevationLayerRequest, 3), (TileColorLayerRequest 0, 3),
         (TileColorLayerRequest 1, 13002342 / 4194304)] \<and>
      (\<exists>r\<in>set (requests t').
         req_kind r = TileElevationLayerRequest \<and> priority r = 3) \<and>
      (\<exists>r\<in>set (requests t').
         req_kind r = TileColorLayerRequest 1 \<and> priority r \<noteq> 3 + 1 / 10 \<and>
         \<bar>priority r - (3 + 1 / 10)\<bar> \<le> (3 + 1 / 10) / 2 ^ 23)"
    by (rule exI)
  with h b five show ?thesis by (intro conjI)
qed

end
